theory Spec2Isabelle
  imports Complex_Main "HOL-Library.Char_ord" "HOL-Library.List_Lexorder" "HOL-Library.Option_ord"
begin

section \<open>The relational store (database/schema.sql)\<close>

text \<open>
  The four tables of the schema, one record per table, one field per column. A nullable
  column is an \<open>option\<close> (\<open>None\<close> is SQL's NULL); \<open>int\<close> and \<open>serial\<close> columns
  are \<open>int\<close>, within the 32 bits of the column (\<open>int4\<close> below), \<open>numeric\<close> is
  \<open>rat\<close>, \<open>text\<close> is \<open>string\<close>, \<open>timestamptz\<close> is a number of microseconds. A table is the list of its rows. Columns carrying the same name in two
  tables are told apart as in SQL, by the table: \<open>sets.workoutId\<close>, \<open>workouts.workoutId\<close>.
\<close>

type_synonym timestamptz = int

record users =
  userId :: int
  username :: string
  hashedPassword :: string
  createdAt :: timestamptz

record workouts =
  workoutId :: int
  userId :: int
  completedAt :: "timestamptz option"
  workoutName :: "string option"

record exercises =
  exerciseId :: int
  name :: string
  muscleGroup :: string
  equipment :: "string option"

record sets =
  workoutId :: int
  exerciseId :: int
  setOrder :: int
  reps :: "int option"
  weight :: "rat option"

text \<open>
  The request body of PATCH /api/workout/:workoutId:
  \<open>{ exercises: [{ exerciseId, sets: [{ reps, weight, setOrder }] }], workoutName }\<close>.
\<close>

record set_body =
  reps :: "int option"
  weight :: "rat option"
  setOrder :: int

record exercise_body =
  exerciseId :: int
  sets :: "set_body list"

record patch_body =
  exercises :: "exercise_body list option"
  workoutName :: "string option"

text \<open>
  The response of GET /api/workout/:workoutId and the rows of GET /api/user/workout-sets.
\<close>

record set_json =
  setOrder :: int
  reps :: "int option"
  weight :: "rat option"

record exercise_json =
  exerciseId :: int
  name :: string
  equipment :: "string option"
  sets :: "set_json list"

record workout_json =
  workoutId :: int
  workoutName :: "string option"
  exercises :: "exercise_json list"

record workout_sets_row =
  equipment :: "string option"
  exerciseId :: int
  name :: string
  reps :: "int option"
  totalSets :: nat
  weight :: "rat option"
  workoutId :: int
  workoutName :: "string option"
  completedAt :: "timestamptz option"

text \<open>
  The store: the four tables and the two sequences behind the \<open>serial\<close> keys that the
  service lets the database fill in (\<open>users.userId\<close>, \<open>workouts.workoutId\<close>); a sequence
  is the next value it hands out.
\<close>

record store =
  users :: "users list"
  workouts :: "workouts list"
  exercises :: "exercises list"
  sets :: "sets list"
  users_userId_seq :: int
  workouts_workoutId_seq :: int

text \<open>
  What a handler throws or passes to \<open>next(err)\<close>: a \<open>ClientError\<close> with its status
  and message, an error of the store (a violated constraint, by its name in the schema, or
  a value out of the range of its type, SQLSTATE 22003), or a runtime \<open>TypeError\<close> of the
  handler itself.
\<close>

datatype error =
    ClientError nat string
  | UniqueViolation string
  | ForeignKeyViolation string
  | NotNullViolation string
  | NumericValueOutOfRange string
  | TypeError string

datatype error_class = InvalidInput | Unauthorized | ReferentialIntegrity | Unhandled

text \<open>
  Modelled from the spec: server/error-middleware.js and server/client-error.js are not
  among the sources; the taxonomy is that of the specification's error handling design:
  InvalidInput for a 4xx raised on a missing or malformed field, Unauthorized for a missing
  or invalid credential, ReferentialIntegrity for a foreign-key violation of the store,
  Unhandled for any other store or runtime failure.
\<close>

fun classify :: "error \<Rightarrow> error_class" where
  "classify (ClientError status msg) = (if status = 401 then Unauthorized else InvalidInput)"
| "classify (ForeignKeyViolation c) = ReferentialIntegrity"
| "classify (UniqueViolation c) = Unhandled"
| "classify (NotNullViolation c) = Unhandled"
| "classify (NumericValueOutOfRange t) = Unhandled"
| "classify (TypeError msg) = Unhandled"

text \<open>A reply is an error or a status with a body.\<close>

type_synonym 'a reply = "error + nat \<times> 'a"

text \<open>
  The constraints of the schema: the primary keys and the unique user name, and the three
  foreign keys \<open>workouts_fk0\<close>, \<open>sets_fk0\<close>, \<open>sets_fk1\<close>. (NOT NULL is in the types.)
\<close>

definition workouts_fk0 :: "store \<Rightarrow> workouts \<Rightarrow> bool" where
  "workouts_fk0 db w \<longleftrightarrow> workouts.userId w \<in> users.userId ` set (users db)"

definition sets_fk0 :: "store \<Rightarrow> sets \<Rightarrow> bool" where
  "sets_fk0 db s \<longleftrightarrow> sets.workoutId s \<in> workouts.workoutId ` set (workouts db)"

definition sets_fk1 :: "store \<Rightarrow> sets \<Rightarrow> bool" where
  "sets_fk1 db s \<longleftrightarrow> sets.exerciseId s \<in> exercises.exerciseId ` set (exercises db)"

definition constraints :: "store \<Rightarrow> bool" where
  "constraints db \<longleftrightarrow>
     distinct (map users.userId (users db)) \<and>
     distinct (map username (users db)) \<and>
     distinct (map workouts.workoutId (workouts db)) \<and>
     distinct (map exercises.exerciseId (exercises db)) \<and>
     list_all (workouts_fk0 db) (workouts db) \<and>
     list_all (sets_fk0 db) (sets db) \<and>
     list_all (sets_fk1 db) (sets db)"

section \<open>The statements of server/index.js\<close>

text \<open>
  \<open>insert into "sets" ... values ...\<close>: all rows or none; a row whose workout or exercise
  does not exist violates a foreign key and fails the statement.
\<close>

definition insert_into_sets :: "sets list \<Rightarrow> store \<Rightarrow> error + store" where
  "insert_into_sets rows db =
     (if \<not> list_all (sets_fk0 db) rows then Inl (ForeignKeyViolation ''sets_fk0'')
      else if \<not> list_all (sets_fk1 db) rows then Inl (ForeignKeyViolation ''sets_fk1'')
      else Inr (db\<lparr>store.sets := store.sets db @ rows\<rparr>))"

text \<open>
  The statements that PATCH /api/workout/:workoutId issues, each with its parameters in
  the order of its \<open>params\<close> array: \<open>updateSql\<close> and \<open>addSql\<close> take
  \<open>[reps, weight, setOrder, workoutId, exerciseId]\<close>, \<open>nameSql\<close> takes
  \<open>[workoutId, workoutName]\<close>.
\<close>

datatype statement =
    UpdateSql "int option" "rat option" int int int
  | AddSql "int option" "rat option" int int int
  | NameSql int string

text \<open>
  The columns \<open>reps\<close>, \<open>setOrder\<close>, \<open>workoutId\<close> and \<open>exerciseId\<close> are 32-bit
  integers (\<open>int\<close>, \<open>serial\<close>), and the handler passes \<open>reps\<close>, \<open>setOrder\<close> and the
  identifiers on as they come. A parameter that is assigned to such a column or compared
  with it is read as a 32-bit integer when the statement is bound; a value out of that
  range is refused there (\<open>integer out of range\<close>), before any row is looked at, and the
  statement writes nothing. NULL is in range. \<open>weight\<close> is \<open>numeric\<close>, without a bound.
\<close>

definition int4 :: "int \<Rightarrow> bool" where
  "int4 n \<longleftrightarrow> - 2147483648 \<le> n \<and> n \<le> 2147483647"

definition int4_null :: "int option \<Rightarrow> bool" where
  "int4_null v = (case v of None \<Rightarrow> True | Some n \<Rightarrow> int4 n)"

fun binds :: "statement \<Rightarrow> bool" where
  "binds (UpdateSql p1 p2 p3 p4 p5) \<longleftrightarrow> int4_null p1 \<and> int4 p3 \<and> int4 p4 \<and> int4 p5"
| "binds (AddSql p1 p2 p3 p4 p5) \<longleftrightarrow> int4_null p1 \<and> int4 p3 \<and> int4 p4 \<and> int4 p5"
| "binds (NameSql p1 p2) \<longleftrightarrow> int4 p1"

text \<open>The statement once its parameters are bound.\<close>

fun execute :: "statement \<Rightarrow> store \<Rightarrow> error + store" where
  "execute (UpdateSql p1 p2 p3 p4 p5) db =
     Inr (db\<lparr>store.sets :=
            map (\<lambda>s. if sets.setOrder s = p3 \<and> sets.workoutId s = p4 \<and> sets.exerciseId s = p5
                      then s\<lparr>sets.reps := p1, sets.weight := p2\<rparr> else s)
                (store.sets db)\<rparr>)"
| "execute (AddSql p1 p2 p3 p4 p5) db =
     insert_into_sets
       [\<lparr>sets.workoutId = p4, sets.exerciseId = p5, sets.setOrder = p3,
         sets.reps = p1, sets.weight = p2\<rparr>] db"
| "execute (NameSql p1 p2) db =
     Inr (db\<lparr>workouts :=
            map (\<lambda>w. if workouts.workoutId w = p1 then w\<lparr>workouts.workoutName := Some p2\<rparr> else w)
                (workouts db)\<rparr>)"

definition query :: "statement \<Rightarrow> store \<Rightarrow> error + store" where
  "query q db = (if binds q then execute q db else Inl (NumericValueOutOfRange ''integer''))"

text \<open>
  The handler creates every promise before any of them settles, so every statement is
  sent whatever becomes of the others: a statement that fails leaves the store as it was
  and the next one runs. The statements are run here in the order they are issued.
  \<open>Promise.all\<close> rejects when at least one statement fails; the errors are collected
  in the order of the statements and the reply carries the first.
\<close>

fun query_all :: "statement list \<Rightarrow> store \<Rightarrow> error list \<times> store" where
  "query_all [] db = ([], db)"
| "query_all (q # qs) db =
     (case query q db of
        Inl e \<Rightarrow> (case query_all qs db of (es, db') \<Rightarrow> (e # es, db'))
      | Inr db1 \<Rightarrow> query_all qs db1)"

section \<open>The handlers of server/index.js\<close>

text \<open>
  POST /api/auth/sign-up. The hash is argon2's, taken as given. The insert draws the next
  value of the sequence before the constraints are checked.
\<close>

definition sign_up :: "string \<Rightarrow> string \<Rightarrow> string \<Rightarrow> timestamptz \<Rightarrow> store \<Rightarrow> users reply \<times> store" where
  "sign_up uname password hashed now db =
     (if uname = [] \<or> password = []
      then (Inl (ClientError 400 ''ERROR: Username and password are required fields.''), db)
      else
        let row = \<lparr>users.userId = users_userId_seq db, username = uname,
                   hashedPassword = hashed, createdAt = now\<rparr>;
            db1 = db\<lparr>users_userId_seq := users_userId_seq db + 1\<rparr>
        in if users.userId row \<in> users.userId ` set (users db)
           then (Inl (UniqueViolation ''users_pk''), db1)
           else if uname \<in> username ` set (users db)
           then (Inl (UniqueViolation ''users_username_key''), db1)
           else (Inr (201, row), db1\<lparr>users := users db @ [row]\<rparr>))"

text \<open>POST /api/new-workout, for the user of the verified token.\<close>

definition new_workout :: "int \<Rightarrow> string option \<Rightarrow> store \<Rightarrow> workouts reply \<times> store" where
  "new_workout uid wname db =
     (if uid = 0 then (Inl (ClientError 400 ''ERROR: Invalid user.''), db)
      else
        let row = \<lparr>workouts.workoutId = workouts_workoutId_seq db, workouts.userId = uid,
                   workouts.completedAt = None, workouts.workoutName = wname\<rparr>;
            db1 = db\<lparr>workouts_workoutId_seq := workouts_workoutId_seq db + 1\<rparr>
        in if workouts.workoutId row \<in> workouts.workoutId ` set (workouts db)
           then (Inl (UniqueViolation ''workouts_pk''), db1)
           else if \<not> workouts_fk0 db row
           then (Inl (ForeignKeyViolation ''workouts_fk0''), db1)
           else (Inr (201, row), db1\<lparr>workouts := workouts db @ [row]\<rparr>))"

text \<open>
  POST /api/workout/new-exercises. \<open>params\<close> is the workout followed by the exercises;
  the i-th tuple of \<open>values\<close> is \<open>($1, $(i+2), 1)\<close>, and \<open>$k\<close> reads \<open>params[k-1]\<close>.
\<close>

definition new_exercises :: "int \<Rightarrow> int list \<Rightarrow> store \<Rightarrow> sets list reply \<times> store" where
  "new_exercises wid exerciseIds db =
     (if wid = 0 \<or> length exerciseIds < 1
      then (Inl (ClientError 400 ''ERROR: Existing workoutId and exerciseId are required''), db)
      else
        let params = wid # exerciseIds;
            ids = map (\<lambda>index. (1, index + 2)) [0..<length exerciseIds];
            rows = map (\<lambda>(a, b). \<lparr>sets.workoutId = params ! (a - 1),
                                   sets.exerciseId = params ! (b - 1),
                                   sets.setOrder = 1, sets.reps = None, sets.weight = None\<rparr>) ids
        in case insert_into_sets rows db of
             Inl e \<Rightarrow> (Inl e, db)
           | Inr db' \<Rightarrow> (Inr (201, rows), db'))"

text \<open>
  PATCH /api/workout/:workoutId. \<open>exercises\<close> absent is the 400; an empty array is
  truthy and passes. \<open>workoutName\<close> is used when truthy: present and not the empty string.
  The name statement is pushed inside the callback of \<open>flatMap\<close>, once per exercise.
\<close>

definition set_statement :: "int \<Rightarrow> int \<Rightarrow> set_body \<Rightarrow> statement" where
  "set_statement wid eid s =
     (if set_body.setOrder s = 1
      then UpdateSql (set_body.reps s) (set_body.weight s) (set_body.setOrder s) wid eid
      else AddSql (set_body.reps s) (set_body.weight s) (set_body.setOrder s) wid eid)"

definition exercise_statements :: "int \<Rightarrow> string option \<Rightarrow> exercise_body \<Rightarrow> statement list" where
  "exercise_statements wid wname exercise =
     map (set_statement wid (exercise_body.exerciseId exercise)) (exercise_body.sets exercise)
     @ (case wname of
          None \<Rightarrow> []
        | Some n \<Rightarrow> if n = [] then [] else [NameSql wid n])"

definition patch_workout :: "int \<Rightarrow> patch_body \<Rightarrow> store \<Rightarrow> unit reply \<times> store" where
  "patch_workout wid body db =
     (case patch_body.exercises body of
        None \<Rightarrow> (Inl (ClientError 400 ''ERROR: Missing exercises.''), db)
      | Some exs \<Rightarrow>
          (case query_all (concat (map (exercise_statements wid (patch_body.workoutName body)) exs)) db of
             ([], db') \<Rightarrow> (Inr (204, ()), db')
           | (e # es, db') \<Rightarrow> (Inl e, db')))"

text \<open>
  PATCH /api/workout/:workoutId/exercise/:exerciseId. The foreign key and NOT NULL are
  checked on the rows the update rewrites, so an update that matches no row cannot fail.
\<close>

definition swap_exercise :: "int \<Rightarrow> int \<Rightarrow> int option \<Rightarrow> store \<Rightarrow> sets list reply \<times> store" where
  "swap_exercise wid eid newExerciseId db =
     (if wid = 0 \<or> eid = 0
      then (Inl (ClientError 400 ''ERROR: Missing valid workoutId or exerciseId''), db)
      else
        let hit = (\<lambda>s. sets.workoutId s = wid \<and> sets.exerciseId s = eid) in
        if filter hit (store.sets db) = [] then (Inr (204, []), db)
        else case newExerciseId of
          None \<Rightarrow> (Inl (NotNullViolation ''exerciseId''), db)
        | Some new \<Rightarrow>
            if new \<notin> exercises.exerciseId ` set (store.exercises db)
            then (Inl (ForeignKeyViolation ''sets_fk1''), db)
            else (Inr (204, map (\<lambda>s. s\<lparr>sets.exerciseId := new\<rparr>) (filter hit (store.sets db))),
                  db\<lparr>store.sets := map (\<lambda>s. if hit s then s\<lparr>sets.exerciseId := new\<rparr> else s)
                                        (store.sets db)\<rparr>))"

text \<open>PATCH /api/workout/:workoutId/completed; \<open>date\<close> is the \<open>new Date()\<close> of the call.\<close>

definition completed :: "int \<Rightarrow> string option \<Rightarrow> timestamptz \<Rightarrow> store \<Rightarrow> unit reply \<times> store" where
  "completed wid wname date db =
     (if wid = 0 then (Inl (ClientError 400 ''ERROR: Existing workoutId is required''), db)
      else (Inr (204, ()),
            db\<lparr>workouts :=
                 map (\<lambda>w. if workouts.workoutId w = wid
                           then w\<lparr>workouts.completedAt := Some date, workouts.workoutName := wname\<rparr>
                           else w)
                     (workouts db)\<rparr>))"

text \<open>DELETE /api/workout/:workoutId/exercise/:exerciseId.\<close>

definition delete_exercise :: "int \<Rightarrow> int \<Rightarrow> store \<Rightarrow> sets list reply \<times> store" where
  "delete_exercise wid eid db =
     (if wid = 0 \<or> eid = 0
      then (Inl (ClientError 400 ''ERROR: Missing valid workoutId or exerciseId''), db)
      else
        let hit = (\<lambda>s. sets.workoutId s = wid \<and> sets.exerciseId s = eid) in
        (Inr (204, filter hit (store.sets db)),
         db\<lparr>store.sets := filter (\<lambda>s. \<not> hit s) (store.sets db)\<rparr>))"

text \<open>
  DELETE /api/user/empty-workouts: one statement. \<open>workoutDelete\<close> is the \<open>returning\<close>
  of the delete on workouts; the delete on sets takes the rows whose workout is in it.
\<close>

definition empty_workouts :: "int \<Rightarrow> store \<Rightarrow> sets list reply \<times> store" where
  "empty_workouts uid db =
     (if uid = 0 then (Inl (ClientError 400 ''ERROR: Invalid user.''), db)
      else
        let gone = (\<lambda>w. workouts.completedAt w = None \<and> workouts.userId w = uid);
            workoutDelete = map workouts.workoutId (filter gone (workouts db))
        in (Inr (204, []),
            db\<lparr>workouts := filter (\<lambda>w. \<not> gone w) (workouts db),
               store.sets := filter (\<lambda>s. sets.workoutId s \<notin> set workoutDelete) (store.sets db)\<rparr>))"

text \<open>
  GET /api/workout/:workoutId. The handler reads \<open>result.rows[0].workoutName\<close> first:
  with no row, \<open>result.rows[0]\<close> is undefined and the read throws a TypeError inside
  the promise, which \<open>catch\<close> passes to \<open>next\<close>.
\<close>

definition select_workout :: "int \<Rightarrow> store \<Rightarrow> (sets \<times> exercises \<times> workouts) list" where
  "select_workout wid db =
     [(s, e, w).
        s \<leftarrow> store.sets db,
        e \<leftarrow> store.exercises db, exercises.exerciseId e = sets.exerciseId s,
        w \<leftarrow> workouts db, workouts.workoutId w = sets.workoutId s,
        sets.workoutId s = wid \<and> workouts.workoutId w = wid]"

definition get_workout :: "int \<Rightarrow> store \<Rightarrow> workout_json reply" where
  "get_workout wid db =
     (if wid = 0 then Inl (ClientError 400 ''ERROR: Invalid workoutId.'')
      else
        case select_workout wid db of
          [] \<Rightarrow> Inl (TypeError ''Cannot read properties of undefined (reading workoutName)'')
        | (s0, e0, w0) # rest \<Rightarrow>
            Inr (200,
              \<lparr>workout_json.workoutId = wid,
               workout_json.workoutName = workouts.workoutName w0,
               workout_json.exercises =
                 map (\<lambda>(s, e, w).
                        \<lparr>exercise_json.exerciseId = sets.exerciseId s,
                         exercise_json.name = exercises.name e,
                         exercise_json.equipment = exercises.equipment e,
                         exercise_json.sets =
                           [\<lparr>set_json.setOrder = 1, set_json.reps = None,
                             set_json.weight = None\<rparr>]\<rparr>)
                     (select_workout wid db)\<rparr>))"

text \<open>
  GET /api/user/workout-sets. Both common table expressions read the same join under the
  same \<open>where\<close>. \<open>"reps" * "weight"\<close> is NULL when a factor is; \<open>order by ... desc\<close>
  puts NULLs first, then the greater values: the ascending order of the negated volume,
  with \<open>None\<close> least. Where SQL leaves an order open (rows of equal volume, rows of equal
  name, the order of groups), the order of the tables is kept.

  \<open>order by "name" asc\<close> compares names under the collation of the database, which
  neither server/index.js nor database/schema.sql fixes: the collation is a parameter,
  \<open>collate a b\<close> saying that \<open>a\<close> sorts no later than \<open>b\<close>. The sort is an insertion
  sort under it.
\<close>

definition from_join :: "int \<Rightarrow> store \<Rightarrow> (sets \<times> workouts \<times> exercises) list" where
  "from_join uid db =
     [(s, w, e).
        s \<leftarrow> store.sets db,
        w \<leftarrow> workouts db, workouts.workoutId w = sets.workoutId s,
        e \<leftarrow> store.exercises db, exercises.exerciseId e = sets.exerciseId s,
        sets.reps s \<noteq> None \<and> sets.weight s \<noteq> None \<and> workouts.userId w = uid]"

definition volume :: "sets \<Rightarrow> rat option" where
  "volume s =
     (case sets.reps s of
        None \<Rightarrow> None
      | Some r \<Rightarrow> (case sets.weight s of None \<Rightarrow> None | Some w \<Rightarrow> Some (of_int r * w)))"

definition volume_desc :: "sets \<times> workouts \<times> exercises \<Rightarrow> rat option" where
  "volume_desc = (\<lambda>(s, w, e). map_option uminus (volume s))"

definition partition_of :: "sets \<times> workouts \<times> exercises \<Rightarrow> int \<times> int" where
  "partition_of = (\<lambda>(s, w, e). (sets.workoutId s, sets.exerciseId s))"

text \<open>
  \<open>bestSetCTE\<close>: the \<open>group by\<close> lists every column of the join, so a group is a set of
  equal rows and grouping drops the duplicates; the window then splits the rows by
  \<open>("workoutId", "exerciseId")\<close>, orders each partition by volume, greatest first, and
  \<open>row_number()\<close> numbers it from 1.
\<close>

definition grouped :: "int \<Rightarrow> store \<Rightarrow> (sets \<times> workouts \<times> exercises) list" where
  "grouped uid db = remdups (from_join uid db)"

definition partitions :: "int \<Rightarrow> store \<Rightarrow> (int \<times> int) list" where
  "partitions uid db = remdups (map partition_of (grouped uid db))"

definition partition_rows :: "int \<Rightarrow> store \<Rightarrow> int \<times> int \<Rightarrow> (sets \<times> workouts \<times> exercises) list" where
  "partition_rows uid db p =
     sort_key volume_desc (filter (\<lambda>r. partition_of r = p) (grouped uid db))"

definition bestSetCTE :: "int \<Rightarrow> store \<Rightarrow> (nat \<times> sets \<times> workouts \<times> exercises) list" where
  "bestSetCTE uid db =
     concat (map (\<lambda>p. enumerate 1 (partition_rows uid db p)) (partitions uid db))"

text \<open>
  \<open>totalSetsCTE\<close>: one row per group of \<open>(exercises.exerciseId, workouts.workoutId,
  sets.exerciseId)\<close>, with the count of the group's rows. \<open>workouts.completedAt\<close> is
  selected without being grouped, which SQL allows because the key of \<open>workouts\<close> is
  grouped and determines it; here it is carried in the group.
\<close>

definition group_of :: "sets \<times> workouts \<times> exercises \<Rightarrow> int \<times> int \<times> int \<times> timestamptz option" where
  "group_of = (\<lambda>(s, w, e). (exercises.exerciseId e, workouts.workoutId w, sets.exerciseId s,
                             workouts.completedAt w))"

definition totalSetsCTE :: "int \<Rightarrow> store \<Rightarrow> (nat \<times> int \<times> int \<times> timestamptz option) list" where
  "totalSetsCTE uid db =
     (let rows = from_join uid db
      in map (\<lambda>g. case g of (e_eid, wid, s_eid, c) \<Rightarrow>
                     (length (filter (\<lambda>r. group_of r = g) rows), s_eid, wid, c))
             (remdups (map group_of rows)))"

text \<open>
  The final \<open>select\<close>: its list of columns, its \<open>from ... join ... using
  ("workoutId", "exerciseId") where "row_number" = 1\<close>, and its \<open>order by "name" asc\<close>.
\<close>

definition selected ::
  "sets \<Rightarrow> workouts \<Rightarrow> exercises \<Rightarrow> nat \<Rightarrow> timestamptz option \<Rightarrow> workout_sets_row" where
  "selected s w e n c =
     \<lparr>workout_sets_row.equipment = exercises.equipment e,
      workout_sets_row.exerciseId = sets.exerciseId s,
      workout_sets_row.name = exercises.name e,
      workout_sets_row.reps = sets.reps s,
      workout_sets_row.totalSets = n,
      workout_sets_row.weight = sets.weight s,
      workout_sets_row.workoutId = sets.workoutId s,
      workout_sets_row.workoutName = workouts.workoutName w,
      workout_sets_row.completedAt = c\<rparr>"

definition best_join_total :: "int \<Rightarrow> store \<Rightarrow> workout_sets_row list" where
  "best_join_total uid db =
     [selected s w e n c.
        (row_number, s, w, e) \<leftarrow> bestSetCTE uid db,
        (n, eid, wid, c) \<leftarrow> totalSetsCTE uid db,
        wid = sets.workoutId s \<and> eid = sets.exerciseId s,
        row_number = 1]"

fun insert_by :: "('k \<Rightarrow> 'k \<Rightarrow> bool) \<Rightarrow> ('a \<Rightarrow> 'k) \<Rightarrow> 'a \<Rightarrow> 'a list \<Rightarrow> 'a list" where
  "insert_by collate key x [] = [x]"
| "insert_by collate key x (y # ys) =
     (if collate (key x) (key y) then x # y # ys else y # insert_by collate key x ys)"

fun order_by :: "('k \<Rightarrow> 'k \<Rightarrow> bool) \<Rightarrow> ('a \<Rightarrow> 'k) \<Rightarrow> 'a list \<Rightarrow> 'a list" where
  "order_by collate key [] = []"
| "order_by collate key (x # xs) = insert_by collate key x (order_by collate key xs)"

definition workout_sets ::
  "(string \<Rightarrow> string \<Rightarrow> bool) \<Rightarrow> int \<Rightarrow> store \<Rightarrow> workout_sets_row list reply" where
  "workout_sets collate uid db =
     (if uid = 0 then Inl (ClientError 400 ''ERROR: Invalid user.'')
      else Inr (200, order_by collate workout_sets_row.name (best_join_total uid db)))"

section \<open>The service as a transition system\<close>

text \<open>
  One constructor per route of server/index.js, past the parsing of the request and, for
  the routes behind the authorization middleware, past the verification of the token: a
  user identifier is the \<open>req.user.userId\<close> of the verified token. The routes that only
  issue \<open>select\<close> leave the store as it is.
\<close>

datatype request =
    SignUp string string string timestamptz
  | SignIn string string
  | AllUsernames
  | AllExercises
  | GetWorkout int
  | AllWorkouts int
  | EmptyWorkouts int
  | WorkoutSets int
  | NewWorkout int "string option"
  | NewExercises int "int list"
  | PatchWorkout int patch_body
  | SwapExercise int int "int option"
  | Completed int "string option" timestamptz
  | DeleteExercise int int

fun handle :: "request \<Rightarrow> store \<Rightarrow> store" where
  "handle (SignUp uname password hashed now) db = snd (sign_up uname password hashed now db)"
| "handle (SignIn uname password) db = db"
| "handle AllUsernames db = db"
| "handle AllExercises db = db"
| "handle (GetWorkout wid) db = db"
| "handle (AllWorkouts uid) db = db"
| "handle (EmptyWorkouts uid) db = snd (empty_workouts uid db)"
| "handle (WorkoutSets uid) db = db"
| "handle (NewWorkout uid wname) db = snd (new_workout uid wname db)"
| "handle (NewExercises wid exerciseIds) db = snd (new_exercises wid exerciseIds db)"
| "handle (PatchWorkout wid body) db = snd (patch_workout wid body db)"
| "handle (SwapExercise wid eid newExerciseId) db = snd (swap_exercise wid eid newExerciseId db)"
| "handle (Completed wid wname date) db = snd (completed wid wname date db)"
| "handle (DeleteExercise wid eid) db = snd (delete_exercise wid eid db)"

fun serve :: "request list \<Rightarrow> store \<Rightarrow> store" where
  "serve [] db = db"
| "serve (r # rs) db = serve rs (handle r db)"

section \<open>A store to run the service on\<close>

definition bench :: exercises where
  "bench = \<lparr>exercises.exerciseId = 1, exercises.name = ''Bench Press'',
            muscleGroup = ''Chest'', exercises.equipment = Some ''Barbell''\<rparr>"

definition squat :: exercises where
  "squat = \<lparr>exercises.exerciseId = 2, exercises.name = ''Air Squat'',
            muscleGroup = ''Legs'', exercises.equipment = None\<rparr>"

definition set_row :: "int \<Rightarrow> int \<Rightarrow> int \<Rightarrow> int option \<Rightarrow> rat option \<Rightarrow> sets" where
  "set_row wid eid n r w =
     \<lparr>sets.workoutId = wid, sets.exerciseId = eid, sets.setOrder = n,
      sets.reps = r, sets.weight = w\<rparr>"

definition workout_row :: "int \<Rightarrow> int \<Rightarrow> timestamptz option \<Rightarrow> string option \<Rightarrow> workouts" where
  "workout_row wid uid c n =
     \<lparr>workouts.workoutId = wid, workouts.userId = uid, workouts.completedAt = c,
      workouts.workoutName = n\<rparr>"

text \<open>
  Two users. User 1 has a completed workout 1 (two bench sets, 5 x 100 and 3 x 150, an
  unfilled squat set and a squat set of 10 x 40) and an abandoned workout 2 with one
  unfilled set; user 2 has an abandoned workout 3 with one set, and a workout 4 with no
  set.
\<close>

definition gym :: store where
  "gym =
     \<lparr>users = [\<lparr>users.userId = 1, username = ''ann'', hashedPassword = ''h1'', createdAt = 10\<rparr>,
               \<lparr>users.userId = 2, username = ''bob'', hashedPassword = ''h2'', createdAt = 20\<rparr>],
      workouts = [workout_row 1 1 (Some 50) (Some ''Push''),
                  workout_row 2 1 None None,
                  workout_row 3 2 None (Some ''Legs''),
                  workout_row 4 2 None None],
      exercises = [bench, squat],
      sets = [set_row 1 1 1 (Some 5) (Some 100),
              set_row 1 1 2 (Some 3) (Some 150),
              set_row 1 2 1 None None,
              set_row 1 2 2 (Some 10) (Some 40),
              set_row 2 1 1 None None,
              set_row 3 2 1 (Some 8) (Some 60)],
      users_userId_seq = 3,
      workouts_workoutId_seq = 5\<rparr>"

text \<open>
  Set entries, two of them with an integer one past the greatest 32-bit integer, and a day
  of requests.
\<close>

definition first_entry :: set_body where
  "first_entry = \<lparr>set_body.reps = Some 6, set_body.weight = Some 110, set_body.setOrder = 1\<rparr>"

definition third_entry :: set_body where
  "third_entry = \<lparr>set_body.reps = Some 4, set_body.weight = Some 120, set_body.setOrder = 3\<rparr>"



definition bench_entries :: "exercise_body list" where
  "bench_entries =
     [\<lparr>exercise_body.exerciseId = 1, exercise_body.sets = [first_entry, third_entry]\<rparr>]"

definition day :: "request list" where
  "day =
     [EmptyWorkouts 1,
      PatchWorkout 1 \<lparr>patch_body.exercises = Some bench_entries,
                      patch_body.workoutName = Some ''Chest''\<rparr>,
      NewWorkout 2 None,
      Completed 3 (Some ''Legs'') 99,
      DeleteExercise 1 2]"

section \<open>The reconciliation in the words of the specification\<close>





text \<open>The effect of \<open>nameSql\<close> on the table of workouts, for a truthy \<open>workoutName\<close>.\<close>

definition named :: "int \<Rightarrow> string option \<Rightarrow> workouts list \<Rightarrow> workouts list" where
  "named wid wname ws =
     (case wname of
        None \<Rightarrow> ws
      | Some n \<Rightarrow>
          if n = [] then ws
          else map (\<lambda>w. if workouts.workoutId w = wid then w\<lparr>workouts.workoutName := Some n\<rparr> else w) ws)"


text \<open>A set entry whose integers are within the range of their columns.\<close>

definition int4_entry :: "set_body \<Rightarrow> bool" where
  "int4_entry s \<longleftrightarrow> int4_null (set_body.reps s) \<and> int4 (set_body.setOrder s)"


section \<open>Completion between two states of the store\<close>

text \<open>
  Every workout that is completed in \<open>db\<close> is a completed workout of \<open>db'\<close>.
\<close>

definition stays_completed :: "store \<Rightarrow> store \<Rightarrow> bool" where
  "stays_completed db db' \<longleftrightarrow>
     (\<forall>w \<in> set (workouts db). workouts.completedAt w \<noteq> None \<longrightarrow>
        (\<exists>w' \<in> set (workouts db'). workouts.workoutId w' = workouts.workoutId w \<and>
                                    workouts.completedAt w' \<noteq> None))"

text \<open>
  Every workout that is completed in \<open>db'\<close> was completed in \<open>db\<close>, with the same
  timestamp: nothing has written a \<open>completedAt\<close>.
\<close>

definition completes_nothing :: "store \<Rightarrow> store \<Rightarrow> bool" where
  "completes_nothing db db' \<longleftrightarrow>
     (\<forall>w' \<in> set (workouts db'). workouts.completedAt w' \<noteq> None \<longrightarrow>
        (\<exists>w \<in> set (workouts db). workouts.workoutId w = workouts.workoutId w' \<and>
                                  workouts.completedAt w = workouts.completedAt w'))"

section \<open>The rows of the statistics\<close>

text \<open>
  For a row of the join: the rows of \<open>totalSetsCTE\<close> that the final join gives it, the
  size of its group, and the row of the result made of it.
\<close>

definition joined_totals :: "int \<Rightarrow> store \<Rightarrow> sets \<times> workouts \<times> exercises \<Rightarrow> workout_sets_row list" where
  "joined_totals uid db =
     (\<lambda>(s, w, e). [selected s w e n c.
                      (n, eid, wid, c) \<leftarrow> totalSetsCTE uid db,
                      wid = sets.workoutId s \<and> eid = sets.exerciseId s])"

definition total_sets :: "int \<Rightarrow> store \<Rightarrow> sets \<times> workouts \<times> exercises \<Rightarrow> nat" where
  "total_sets uid db b = length (filter (\<lambda>r. group_of r = group_of b) (from_join uid db))"

definition best_row :: "int \<Rightarrow> store \<Rightarrow> sets \<times> workouts \<times> exercises \<Rightarrow> workout_sets_row" where
  "best_row uid db =
     (\<lambda>(s, w, e). selected s w e (total_sets uid db (s, w, e)) (workouts.completedAt w))"

section \<open>Joins on keys\<close>

lemma concat_map_if: "concat (map (\<lambda>x. if P x then g x else []) xs) = concat (map g (filter P xs))"
  by (induction xs) simp_all

lemma filter_key_single:
  assumes "distinct (map f xs)" and "k \<in> f ` set xs"
  shows "\<exists>x. filter (\<lambda>x. f x = k) xs = [x] \<and> f x = k"
  using assms
proof (induction xs)
  case Nil
  then show ?case by simp
next
  case (Cons a xs)
  show ?case
  proof (cases "f a = k")
    case True
    from Cons.prems have "f a \<notin> f ` set xs" by simp
    with True have "\<forall>x \<in> set xs. f x \<noteq> k" by (metis image_eqI)
    then have "filter (\<lambda>x. f x = k) xs = []"
      by (simp add: filter_empty_conv)
    with True show ?thesis by simp
  next
    case False
    with Cons show ?thesis by auto
  qed
qed

lemma select_workout_row:
  assumes "distinct (map exercises.exerciseId es)" and "distinct (map workouts.workoutId ws)"
    and "sets.exerciseId s \<in> exercises.exerciseId ` set es"
    and "sets.workoutId s \<in> workouts.workoutId ` set ws"
  shows "\<exists>e w. concat (map (\<lambda>e. if exercises.exerciseId e = sets.exerciseId s
              then concat (map (\<lambda>w. if workouts.workoutId w = sets.workoutId s
                     then if sets.workoutId s = wid \<and> workouts.workoutId w = wid then [(s, e, w)] else []
                     else []) ws)
              else []) es) = (if sets.workoutId s = wid then [(s, e, w)] else [])"
proof -
  obtain e where e: "filter (\<lambda>e. exercises.exerciseId e = sets.exerciseId s) es = [e]"
    using filter_key_single [OF assms(1) assms(3)] by blast
  obtain w where w: "filter (\<lambda>w. workouts.workoutId w = sets.workoutId s) ws = [w]"
    and w': "workouts.workoutId w = sets.workoutId s"
    using filter_key_single [OF assms(2) assms(4)] by blast
  show ?thesis
    by (rule exI [of _ e], rule exI [of _ w]) (simp add: concat_map_if e w w')
qed

lemma select_workout_fst:
  assumes "constraints db"
  shows "map fst (select_workout wid db) = filter (\<lambda>s. sets.workoutId s = wid) (store.sets db)"
proof -
  have d: "distinct (map exercises.exerciseId (store.exercises db))"
    "distinct (map workouts.workoutId (workouts db))"
    using assms by (simp_all add: constraints_def)
  have "\<forall>s \<in> set ss. sets_fk0 db s \<and> sets_fk1 db s \<Longrightarrow>
    map fst (concat (map (\<lambda>s. concat (map (\<lambda>e. if exercises.exerciseId e = sets.exerciseId s
              then concat (map (\<lambda>w. if workouts.workoutId w = sets.workoutId s
                     then if sets.workoutId s = wid \<and> workouts.workoutId w = wid then [(s, e, w)] else []
                     else []) (workouts db))
              else []) (store.exercises db))) ss))
     = filter (\<lambda>s. sets.workoutId s = wid) ss" for ss
  proof (induction ss)
    case Nil
    then show ?case by simp
  next
    case (Cons s ss)
    from Cons.prems have "sets.exerciseId s \<in> exercises.exerciseId ` set (store.exercises db)"
      and "sets.workoutId s \<in> workouts.workoutId ` set (workouts db)"
      by (simp_all add: sets_fk0_def sets_fk1_def)
    from select_workout_row [OF d this, of wid] obtain e w where
      "concat (map (\<lambda>e. if exercises.exerciseId e = sets.exerciseId s
              then concat (map (\<lambda>w. if workouts.workoutId w = sets.workoutId s
                     then if sets.workoutId s = wid \<and> workouts.workoutId w = wid then [(s, e, w)] else []
                     else []) (workouts db))
              else []) (store.exercises db)) = (if sets.workoutId s = wid then [(s, e, w)] else [])"
      by blast
    with Cons show ?case by simp
  qed
  moreover have "\<forall>s \<in> set (store.sets db). sets_fk0 db s \<and> sets_fk1 db s"
    using assms by (simp add: constraints_def list_all_iff)
  ultimately show ?thesis
    by (simp add: select_workout_def)
qed

lemma select_workout_empty:
  assumes "wid \<notin> sets.workoutId ` set (store.sets db)"
  shows "select_workout wid db = []"
proof -
  have "\<forall>s \<in> set (store.sets db). sets.workoutId s \<noteq> wid"
    using assms by auto
  then show ?thesis
    by (auto simp: select_workout_def)
qed

text \<open>
  C9. A workout without set rows, such as one that POST /api/new-workout has just created:
  GET /api/workout/:workoutId reads \<open>workoutName\<close> of the first row of an empty result,
  so the reply is an Unhandled error (a TypeError), not a 200 with an empty exercise list.
  The identifier is not 0, which the handler rejects beforehand (a \<open>serial\<close> key starts
  at 1).
\<close>

theorem get_workout_without_sets:
  assumes "wid \<noteq> 0" and "wid \<notin> sets.workoutId ` set (store.sets db)"
  shows "(\<exists>e. get_workout wid db = Inl e \<and> classify e = Unhandled) \<and>
         (\<forall>body. get_workout wid db \<noteq> Inr (200, body))"
  using assms(1) select_workout_empty [OF assms(2)]
  by (simp add: get_workout_def)

theorem get_workout_without_sets_witness:
  "fst (new_workout 2 None gym) = Inr (201, workout_row 5 2 None None) \<and>
   (\<exists>e. get_workout 5 (snd (new_workout 2 None gym)) = Inl e \<and> classify e = Unhandled) \<and>
   (\<forall>body. get_workout 5 (snd (new_workout 2 None gym)) \<noteq> Inr (200, body))"
proof -
  have created: "fst (new_workout 2 None gym) = Inr (201, workout_row 5 2 None None)"
    by code_simp
  have h1: "(5::int) \<noteq> 0" by simp
  have h2: "5 \<notin> sets.workoutId ` set (store.sets (snd (new_workout 2 None gym)))"
    by code_simp
  show ?thesis
    using created get_workout_without_sets [OF h1 h2] by simp
qed

section \<open>Attaching exercises, and the detail of a workout\<close>

lemma new_exercises_rows:
  "map (\<lambda>(a, b). \<lparr>sets.workoutId = (wid # exerciseIds) ! (a - 1),
                     sets.exerciseId = (wid # exerciseIds) ! (b - 1),
                     sets.setOrder = 1, sets.reps = None, sets.weight = None\<rparr>)
       (map (\<lambda>index. (1::nat, index + 2)) [0..<length exerciseIds])
   = map (\<lambda>e. set_row wid e 1 None None) exerciseIds"
  by (rule nth_equalityI) (simp_all add: set_row_def)

lemma new_exercises_ok:
  assumes "wid \<noteq> 0" and "exerciseIds \<noteq> []"
    and "wid \<in> workouts.workoutId ` set (workouts db)"
    and "set exerciseIds \<subseteq> exercises.exerciseId ` set (store.exercises db)"
  shows "new_exercises wid exerciseIds db =
           (Inr (201, map (\<lambda>e. set_row wid e 1 None None) exerciseIds),
            db\<lparr>store.sets := store.sets db @ map (\<lambda>e. set_row wid e 1 None None) exerciseIds\<rparr>)"
proof -
  let ?rows = "map (\<lambda>e. set_row wid e 1 None None) exerciseIds"
  have fk0: "list_all (sets_fk0 db) ?rows"
    using assms(3) by (simp add: list_all_iff sets_fk0_def set_row_def)
  have fk1: "list_all (sets_fk1 db) ?rows"
    using assms(4) by (auto simp: list_all_iff sets_fk1_def set_row_def)
  have "insert_into_sets ?rows db = Inr (db\<lparr>store.sets := store.sets db @ ?rows\<rparr>)"
    using fk0 fk1 by (simp add: insert_into_sets_def)
  moreover have "\<not> length exerciseIds < 1"
    using assms(2) by (cases exerciseIds) simp_all
  ultimately show ?thesis
    using assms(1) unfolding new_exercises_def Let_def new_exercises_rows by simp
qed

lemma constraints_append_sets:
  assumes "constraints db" and "list_all (sets_fk0 db) rows" and "list_all (sets_fk1 db) rows"
  shows "constraints (db\<lparr>store.sets := store.sets db @ rows\<rparr>)"
  using assms
  by (auto simp: constraints_def sets_fk0_def sets_fk1_def workouts_fk0_def list_all_iff)

lemma count_first_sets:
  "length (filter (\<lambda>s. sets.workoutId s = wid \<and> sets.exerciseId s = e \<and> sets.setOrder s = 1)
             (map (\<lambda>x. set_row wid x 1 None None) exerciseIds))
   = count_list exerciseIds e"
  by (induction exerciseIds) (auto simp: set_row_def)

lemma repeated_element:
  "\<not> distinct xs \<Longrightarrow> \<exists>e. 2 \<le> count_list xs e"
proof (induction xs)
  case Nil
  then show ?case by simp
next
  case (Cons a xs)
  show ?case
  proof (cases "a \<in> set xs")
    case True
    then have "count_list xs a \<noteq> 0"
      by (simp add: count_list_0_iff)
    then have "2 \<le> count_list (a # xs) a" by simp
    then show ?thesis by blast
  next
    case False
    with Cons obtain e where "2 \<le> count_list xs e" by auto
    then have "2 \<le> count_list (a # xs) e" by simp
    then show ?thesis by blast
  qed
qed

text \<open>
  C4. POST /api/workout/new-exercises with an empty list of exercise identifiers fails with
  the 400 ClientError (InvalidInput) and leaves the store as it was. With a non-empty list, on
  a workout and exercises that exist (the workout identifier is not 0, and the foreign keys
  of \<open>sets\<close> hold for the new rows), it appends one row per listed identifier, in the order
  of the list, each with \<open>setOrder = 1\<close> and \<open>reps\<close> and \<open>weight\<close> NULL, for the target
  workout, and replies 201 with these rows.
\<close>

theorem new_exercises_empty_or_inserted:
  "fst (new_exercises wid [] db)
     = Inl (ClientError 400 ''ERROR: Existing workoutId and exerciseId are required'') \<and>
   classify (ClientError 400 ''ERROR: Existing workoutId and exerciseId are required'') = InvalidInput \<and>
   snd (new_exercises wid [] db) = db \<and>
   (wid \<noteq> 0 \<and> exerciseIds \<noteq> [] \<and> wid \<in> workouts.workoutId ` set (workouts db) \<and>
    set exerciseIds \<subseteq> exercises.exerciseId ` set (store.exercises db) \<longrightarrow>
    new_exercises wid exerciseIds db =
      (Inr (201, map (\<lambda>e. \<lparr>sets.workoutId = wid, sets.exerciseId = e, sets.setOrder = 1,
                               sets.reps = None, sets.weight = None\<rparr>) exerciseIds),
       db\<lparr>store.sets := store.sets db @
            map (\<lambda>e. \<lparr>sets.workoutId = wid, sets.exerciseId = e, sets.setOrder = 1,
                       sets.reps = None, sets.weight = None\<rparr>) exerciseIds\<rparr>))"
proof -
  have "new_exercises wid [] db
          = (Inl (ClientError 400 ''ERROR: Existing workoutId and exerciseId are required''), db)"
    by (simp add: new_exercises_def)
  then show ?thesis
    using new_exercises_ok [of wid exerciseIds db] by (simp add: set_row_def)
qed

theorem new_exercises_empty_or_inserted_witness:
  "fst (new_exercises 4 [] gym)
     = Inl (ClientError 400 ''ERROR: Existing workoutId and exerciseId are required'') \<and>
   snd (new_exercises 4 [] gym) = gym \<and>
   new_exercises 4 [2, 1] gym =
     (Inr (201, [set_row 4 2 1 None None, set_row 4 1 1 None None]),
      gym\<lparr>store.sets := store.sets gym @ [set_row 4 2 1 None None, set_row 4 1 1 None None]\<rparr>)"
proof -
  have h: "(4::int) \<noteq> 0 \<and> [2, 1::int] \<noteq> [] \<and> 4 \<in> workouts.workoutId ` set (workouts gym) \<and>
           set [2, 1] \<subseteq> exercises.exerciseId ` set (store.exercises gym)"
    by code_simp
  show ?thesis
    using h new_exercises_empty_or_inserted [of 4 gym "[2, 1]"] by (simp add: set_row_def)
qed

text \<open>
  C10. POST /api/workout/new-exercises with an identifier listed more than once, on a
  workout and exercises that exist: the insert succeeds (201), returns one row per element of
  the list, the constraints of the schema still hold afterwards, the number of
  \<open>setOrder = 1\<close> rows of each (workout, exercise) pair grows by the number of occurrences
  of the exercise in the list, and so some pair holds at least two such rows.
\<close>

theorem new_exercises_repeated_identifier:
  assumes "constraints db" and "wid \<noteq> 0"
    and "wid \<in> workouts.workoutId ` set (workouts db)"
    and "set exerciseIds \<subseteq> exercises.exerciseId ` set (store.exercises db)"
    and "\<not> distinct exerciseIds"
  shows "\<exists>rows db'. new_exercises wid exerciseIds db = (Inr (201, rows), db') \<and>
           length rows = length exerciseIds \<and>
           constraints db' \<and>
           (\<forall>e. length (filter (\<lambda>s. sets.workoutId s = wid \<and> sets.exerciseId s = e \<and>
                                      sets.setOrder s = 1) (store.sets db'))
                = length (filter (\<lambda>s. sets.workoutId s = wid \<and> sets.exerciseId s = e \<and>
                                        sets.setOrder s = 1) (store.sets db))
                  + count_list exerciseIds e) \<and>
           (\<exists>e. 2 \<le> length (filter (\<lambda>s. sets.workoutId s = wid \<and> sets.exerciseId s = e \<and>
                                          sets.setOrder s = 1) (store.sets db')))"
proof -
  let ?rows = "map (\<lambda>e. set_row wid e 1 None None) exerciseIds"
  let ?db' = "db\<lparr>store.sets := store.sets db @ ?rows\<rparr>"
  from assms(5) have ne: "exerciseIds \<noteq> []" by auto
  have run: "new_exercises wid exerciseIds db = (Inr (201, ?rows), ?db')"
    by (rule new_exercises_ok [OF assms(2) ne assms(3) assms(4)])
  have fk0: "list_all (sets_fk0 db) ?rows"
    using assms(3) by (simp add: list_all_iff sets_fk0_def set_row_def)
  have fk1: "list_all (sets_fk1 db) ?rows"
    using assms(4) by (auto simp: list_all_iff sets_fk1_def set_row_def)
  have c: "constraints ?db'"
    by (rule constraints_append_sets [OF assms(1) fk0 fk1])
  have n: "length (filter (\<lambda>s. sets.workoutId s = wid \<and> sets.exerciseId s = e \<and>
                                 sets.setOrder s = 1) (store.sets ?db'))
            = length (filter (\<lambda>s. sets.workoutId s = wid \<and> sets.exerciseId s = e \<and>
                                    sets.setOrder s = 1) (store.sets db))
              + count_list exerciseIds e" for e
    using count_first_sets [of wid e exerciseIds] by simp
  obtain e where "2 \<le> count_list exerciseIds e"
    using repeated_element [OF assms(5)] by blast
  with n [of e] have "2 \<le> length (filter (\<lambda>s. sets.workoutId s = wid \<and> sets.exerciseId s = e \<and>
                                 sets.setOrder s = 1) (store.sets ?db'))"
    by linarith
  then have two: "\<exists>e. 2 \<le> length (filter (\<lambda>s. sets.workoutId s = wid \<and> sets.exerciseId s = e \<and>
                                 sets.setOrder s = 1) (store.sets ?db'))"
    by blast
  show ?thesis
    apply (rule exI [of _ ?rows], rule exI [of _ ?db'])
    using run c n two by simp
qed

theorem new_exercises_repeated_identifier_witness:
  "\<exists>rows db'. new_exercises 4 [1, 2, 1] gym = (Inr (201, rows), db') \<and>
     length rows = 3 \<and> constraints db' \<and>
     length (filter (\<lambda>s. sets.workoutId s = 4 \<and> sets.exerciseId s = 1 \<and> sets.setOrder s = 1)
               (store.sets db')) = 2"
proof -
  have h1: "constraints gym" by code_simp
  have h2: "(4::int) \<noteq> 0" by simp
  have h3: "4 \<in> workouts.workoutId ` set (workouts gym)" by code_simp
  have h4: "set [1, 2, 1] \<subseteq> exercises.exerciseId ` set (store.exercises gym)" by code_simp
  have h5: "\<not> distinct [1, 2, 1::int]" by simp
  have before: "length (filter (\<lambda>s. sets.workoutId s = 4 \<and> sets.exerciseId s = 1 \<and> sets.setOrder s = 1)
               (store.sets gym)) = 0"
    by code_simp
  from new_exercises_repeated_identifier [OF h1 h2 h3 h4 h5] obtain rows db' where
    r: "new_exercises 4 [1, 2, 1] gym = (Inr (201, rows), db')" "length rows = length [1, 2, 1::int]"
      "constraints db'"
      "\<forall>e. length (filter (\<lambda>s. sets.workoutId s = 4 \<and> sets.exerciseId s = e \<and>
                                      sets.setOrder s = 1) (store.sets db'))
                = length (filter (\<lambda>s. sets.workoutId s = 4 \<and> sets.exerciseId s = e \<and>
                                        sets.setOrder s = 1) (store.sets gym))
                  + count_list [1, 2, 1] e"
    by blast
  from r(4) before have "length (filter (\<lambda>s. sets.workoutId s = 4 \<and> sets.exerciseId s = 1 \<and> sets.setOrder s = 1)
               (store.sets db')) = 2"
    by simp
  with r(1,2,3) show ?thesis by auto
qed

text \<open>
  C7. GET /api/workout/:workoutId on a workout that has set rows (identifier not 0): the
  reply is 200, its exercise entries are the set rows of the workout, one entry per row and
  in their order, and the \<open>sets\<close> of every entry is the one placeholder
  \<open>[{setOrder: 1, reps: null, weight: null}]\<close>, whatever the rows hold.
\<close>

theorem get_workout_placeholder_sets:
  assumes "constraints db" and "wid \<noteq> 0" and "wid \<in> sets.workoutId ` set (store.sets db)"
  shows "\<exists>body. get_workout wid db = Inr (200, body) \<and>
           map exercise_json.exerciseId (workout_json.exercises body)
             = map sets.exerciseId (filter (\<lambda>s. sets.workoutId s = wid) (store.sets db)) \<and>
           (\<forall>x \<in> set (workout_json.exercises body).
              exercise_json.sets x
                = [\<lparr>set_json.setOrder = 1, set_json.reps = None, set_json.weight = None\<rparr>])"
proof -
  have rows: "map fst (select_workout wid db) = filter (\<lambda>s. sets.workoutId s = wid) (store.sets db)"
    by (rule select_workout_fst [OF assms(1)])
  from assms(3) have "filter (\<lambda>s. sets.workoutId s = wid) (store.sets db) \<noteq> []"
    by (auto simp: filter_empty_conv)
  with rows have "select_workout wid db \<noteq> []" by auto
  then obtain s0 e0 w0 rest where sel: "select_workout wid db = (s0, e0, w0) # rest"
    by (cases "select_workout wid db") auto
  have ids: "map (\<lambda>(s, e, w). sets.exerciseId s) (select_workout wid db)
        = map sets.exerciseId (filter (\<lambda>s. sets.workoutId s = wid) (store.sets db))"
    unfolding rows [symmetric] by (simp add: case_prod_unfold comp_def)
  show ?thesis
    using assms(2) ids by (auto simp: get_workout_def sel comp_def case_prod_unfold)
qed

theorem get_workout_placeholder_sets_witness:
  "\<exists>body. get_workout 1 gym = Inr (200, body) \<and>
     map exercise_json.exerciseId (workout_json.exercises body) = [1, 1, 2, 2] \<and>
     map exercise_json.sets (workout_json.exercises body)
       = replicate 4 [\<lparr>set_json.setOrder = 1, set_json.reps = None, set_json.weight = None\<rparr>]"
proof -
  have h1: "constraints gym" by code_simp
  have h2: "(1::int) \<noteq> 0" by simp
  have h3: "1 \<in> sets.workoutId ` set (store.sets gym)" by code_simp
  have f: "map sets.exerciseId (filter (\<lambda>s. sets.workoutId s = 1) (store.sets gym)) = [1, 1, 2, 2]"
    by code_simp
  from get_workout_placeholder_sets [OF h1 h2 h3] obtain body where
    b: "get_workout 1 gym = Inr (200, body)"
       "map exercise_json.exerciseId (workout_json.exercises body)
             = map sets.exerciseId (filter (\<lambda>s. sets.workoutId s = 1) (store.sets gym))"
       "\<forall>x \<in> set (workout_json.exercises body).
              exercise_json.sets x
                = [\<lparr>set_json.setOrder = 1, set_json.reps = None, set_json.weight = None\<rparr>]"
    by blast
  have l: "length (workout_json.exercises body) = 4"
    using arg_cong [OF b(2) [unfolded f], of length] by simp
  from b(3) l have "map exercise_json.sets (workout_json.exercises body)
       = replicate 4 [\<lparr>set_json.setOrder = 1, set_json.reps = None, set_json.weight = None\<rparr>]"
    by (simp add: map_replicate_const cong: map_cong)
  with b(1,2) f show ?thesis by auto
qed

section \<open>Purging abandoned workouts\<close>

lemma key_determines_row:
  assumes "distinct (map f xs)" and "x \<in> set xs" and "y \<in> set xs" and "f x = f y"
  shows "x = y"
  using assms by (meson distinct_map inj_on_eq_iff)

lemma empty_workouts_run:
  assumes "uid \<noteq> 0"
  shows "empty_workouts uid db =
    (Inr (204, []),
     db\<lparr>workouts := filter (\<lambda>w. \<not> (workouts.userId w = uid \<and> workouts.completedAt w = None)) (workouts db),
        store.sets := filter (\<lambda>s. \<not> (\<exists>w \<in> set (workouts db). workouts.workoutId w = sets.workoutId s \<and>
                                     workouts.userId w = uid \<and> workouts.completedAt w = None))
                        (store.sets db)\<rparr>)"
proof -
  have s: "filter (\<lambda>s. sets.workoutId s \<notin> set (map workouts.workoutId
                 (filter (\<lambda>w. workouts.completedAt w = None \<and> workouts.userId w = uid) (workouts db))))
          (store.sets db)
        = filter (\<lambda>s. \<not> (\<exists>w \<in> set (workouts db). workouts.workoutId w = sets.workoutId s \<and>
                                     workouts.userId w = uid \<and> workouts.completedAt w = None))
                        (store.sets db)"
    by (rule filter_cong) (auto simp: image_iff)
  have w: "filter (\<lambda>w. \<not> (workouts.completedAt w = None \<and> workouts.userId w = uid)) (workouts db)
        = filter (\<lambda>w. \<not> (workouts.userId w = uid \<and> workouts.completedAt w = None)) (workouts db)"
    by (rule filter_cong) auto
  show ?thesis
    unfolding empty_workouts_def Let_def s w using assms by simp
qed

lemma constraints_empty_workouts:
  assumes "constraints db"
  shows "constraints (snd (empty_workouts uid db))"
proof (cases "uid = 0")
  case True
  with assms show ?thesis by (simp add: empty_workouts_def)
next
  case False
  have d: "distinct (map workouts.workoutId (filter P (workouts db)))" for P
    using assms by (simp add: constraints_def distinct_map_filter)
  have "sets.workoutId s \<in> workouts.workoutId ` {w \<in> set (workouts db). \<not> (workouts.userId w = uid \<and> workouts.completedAt w = None)}"
    if "s \<in> set (store.sets db)"
      and "\<not> (\<exists>w \<in> set (workouts db). workouts.workoutId w = sets.workoutId s \<and>
                                     workouts.userId w = uid \<and> workouts.completedAt w = None)" for s
  proof -
    from assms that(1) obtain w where "w \<in> set (workouts db)" "workouts.workoutId w = sets.workoutId s"
      by (auto simp: constraints_def list_all_iff sets_fk0_def)
    with that(2) show ?thesis by force
  qed
  with assms d show ?thesis
    unfolding empty_workouts_run [OF False]
    by (simp add: constraints_def list_all_iff sets_fk0_def sets_fk1_def workouts_fk0_def)
qed

text \<open>
  C2. DELETE /api/user/empty-workouts for user U (identifier not 0), on a store that meets
  the constraints of the schema: one statement, hence one transition of the store. It
  removes from \<open>workouts\<close> exactly the rows of U with \<open>completedAt\<close> NULL, and from
  \<open>sets\<close> exactly the rows that reference one of them; users and exercises stay as they
  are; the constraints hold afterwards, so every remaining set row references a remaining
  workout; every completed workout of U and every workout of another user stays, with all
  of its set rows.
\<close>

theorem empty_workouts_purges:
  assumes "constraints db" and "uid \<noteq> 0"
  shows "\<exists>db'. empty_workouts uid db = (Inr (204, []), db') \<and>
     workouts db' = filter (\<lambda>w. \<not> (workouts.userId w = uid \<and> workouts.completedAt w = None)) (workouts db) \<and>
     store.sets db' = filter (\<lambda>s. \<not> (\<exists>w \<in> set (workouts db). workouts.workoutId w = sets.workoutId s \<and>
                                     workouts.userId w = uid \<and> workouts.completedAt w = None))
                        (store.sets db) \<and>
     users db' = users db \<and> store.exercises db' = store.exercises db \<and>
     constraints db' \<and>
     (\<forall>s \<in> set (store.sets db'). sets.workoutId s \<in> workouts.workoutId ` set (workouts db')) \<and>
     (\<forall>w \<in> set (workouts db). workouts.userId w \<noteq> uid \<or> workouts.completedAt w \<noteq> None \<longrightarrow>
        w \<in> set (workouts db') \<and>
        filter (\<lambda>s. sets.workoutId s = workouts.workoutId w) (store.sets db')
          = filter (\<lambda>s. sets.workoutId s = workouts.workoutId w) (store.sets db))"
proof -
  let ?gone = "\<lambda>w. workouts.userId w = uid \<and> workouts.completedAt w = None"
  let ?db' = "db\<lparr>workouts := filter (\<lambda>w. \<not> ?gone w) (workouts db),
        store.sets := filter (\<lambda>s. \<not> (\<exists>w \<in> set (workouts db). workouts.workoutId w = sets.workoutId s \<and> ?gone w))
                        (store.sets db)\<rparr>"
  have run: "empty_workouts uid db = (Inr (204, []), ?db')"
    by (rule empty_workouts_run [OF assms(2)])
  have c: "constraints ?db'"
    using constraints_empty_workouts [OF assms(1), of uid] by (simp add: run)
  then have orphan: "\<forall>s \<in> set (store.sets ?db'). sets.workoutId s \<in> workouts.workoutId ` set (workouts ?db')"
    by (simp add: constraints_def list_all_iff sets_fk0_def)
  have d: "distinct (map workouts.workoutId (workouts db))"
    using assms(1) by (simp add: constraints_def)
  have kept: "filter (\<lambda>s. sets.workoutId s = workouts.workoutId w) (store.sets ?db')
          = filter (\<lambda>s. sets.workoutId s = workouts.workoutId w) (store.sets db)"
    if w: "w \<in> set (workouts db)" and k: "\<not> ?gone w" for w
  proof -
    have "\<not> (\<exists>w' \<in> set (workouts db). workouts.workoutId w' = sets.workoutId s \<and> ?gone w')"
      if "sets.workoutId s = workouts.workoutId w" for s
    proof
      assume "\<exists>w' \<in> set (workouts db). workouts.workoutId w' = sets.workoutId s \<and> ?gone w'"
      then obtain w' where w': "w' \<in> set (workouts db)" "workouts.workoutId w' = sets.workoutId s" "?gone w'"
        by blast
      with that have "workouts.workoutId w' = workouts.workoutId w" by simp
      from key_determines_row [OF d w'(1) w this] have "w' = w" .
      with w'(3) k show False by simp
    qed
    then show ?thesis
      by (auto intro: filter_cong)
  qed
  show ?thesis
    apply (rule exI [of _ ?db'])
    using run c orphan kept by auto
qed

theorem empty_workouts_purges_witness:
  "\<exists>db'. empty_workouts 1 gym = (Inr (204, []), db') \<and>
     workouts db' = [workout_row 1 1 (Some 50) (Some ''Push''), workout_row 3 2 None (Some ''Legs''),
                     workout_row 4 2 None None] \<and>
     store.sets db' = [set_row 1 1 1 (Some 5) (Some 100), set_row 1 1 2 (Some 3) (Some 150),
                       set_row 1 2 1 None None, set_row 1 2 2 (Some 10) (Some 40),
                       set_row 3 2 1 (Some 8) (Some 60)] \<and>
     constraints db'"
proof -
  have h1: "constraints gym" by code_simp
  have h2: "(1::int) \<noteq> 0" by simp
  have w: "filter (\<lambda>w. \<not> (workouts.userId w = 1 \<and> workouts.completedAt w = None)) (workouts gym)
      = [workout_row 1 1 (Some 50) (Some ''Push''), workout_row 3 2 None (Some ''Legs''),
                     workout_row 4 2 None None]"
    by code_simp
  have s: "filter (\<lambda>s. \<not> (\<exists>w \<in> set (workouts gym). workouts.workoutId w = sets.workoutId s \<and>
                                     workouts.userId w = 1 \<and> workouts.completedAt w = None))
                        (store.sets gym)
      = [set_row 1 1 1 (Some 5) (Some 100), set_row 1 1 2 (Some 3) (Some 150),
                       set_row 1 2 1 None None, set_row 1 2 2 (Some 10) (Some 40),
                       set_row 3 2 1 (Some 8) (Some 60)]"
    by code_simp
  from empty_workouts_purges [OF h1 h2] obtain db' where
    "empty_workouts 1 gym = (Inr (204, []), db')"
    "workouts db' = filter (\<lambda>w. \<not> (workouts.userId w = 1 \<and> workouts.completedAt w = None)) (workouts gym)"
    "store.sets db' = filter (\<lambda>s. \<not> (\<exists>w \<in> set (workouts gym). workouts.workoutId w = sets.workoutId s \<and>
                                     workouts.userId w = 1 \<and> workouts.completedAt w = None))
                        (store.sets gym)"
    "constraints db'"
    by blast
  then show ?thesis
    unfolding w s by blast
qed

section \<open>Reconciling the sets of a workout\<close>


lemma query_Inr:
  assumes "query q db = Inr db'"
  shows "execute q db = Inr db'"
  using assms by (simp add: query_def split: if_splits)

lemma binds_set_statement:
  "binds (set_statement wid eid s) \<longleftrightarrow> int4 wid \<and> int4 eid \<and> int4_entry s"
  by (auto simp: set_statement_def int4_entry_def)



lemma named_keys:
  "map (\<lambda>w. (workouts.workoutId w, workouts.userId w, workouts.completedAt w)) (named wid wname ws)
     = map (\<lambda>w. (workouts.workoutId w, workouts.userId w, workouts.completedAt w)) ws"
  by (induction ws) (auto simp: named_def split: option.splits)

lemma named_ids: "workouts.workoutId ` set (named wid wname ws) = workouts.workoutId ` set ws"
proof -
  have "map fst (map (\<lambda>w. (workouts.workoutId w, workouts.userId w, workouts.completedAt w)) (named wid wname ws))
      = map fst (map (\<lambda>w. (workouts.workoutId w, workouts.userId w, workouts.completedAt w)) ws)"
    by (simp only: named_keys)
  then have "map workouts.workoutId (named wid wname ws) = map workouts.workoutId ws"
    by (simp add: comp_def)
  then have "set (map workouts.workoutId (named wid wname ws)) = set (map workouts.workoutId ws)"
    by (rule arg_cong)
  then show ?thesis by simp
qed

lemma named_named: "named wid wname (named wid wname ws) = named wid wname ws"
  by (auto simp: named_def split: option.splits)
























text \<open>
  C3, at the input where it fails. With an empty list of exercises the handler issues no
  statement at all, the name statement included, which is pushed inside the callback of
  \<open>flatMap\<close>: the reply is 204 and the store, hence the name of the workout, is unchanged.
\<close>

theorem patch_workout_name_without_exercise:
  "patch_workout wid \<lparr>patch_body.exercises = Some [], patch_body.workoutName = Some n\<rparr> db
     = (Inr (204, ()), db)"
  by (simp add: patch_workout_def)

theorem patch_workout_name_without_exercise_witness:
  "patch_workout 1 \<lparr>patch_body.exercises = Some [], patch_body.workoutName = Some ''Chest''\<rparr> gym
     = (Inr (204, ()), gym) \<and>
   map workouts.workoutName (filter (\<lambda>w. workouts.workoutId w = 1) (workouts gym)) = [Some ''Push'']"
proof -
  have "map workouts.workoutName (filter (\<lambda>w. workouts.workoutId w = 1) (workouts gym)) = [Some ''Push'']"
    by code_simp
  with patch_workout_name_without_exercise [of 1 "''Chest''" gym] show ?thesis by simp
qed

section \<open>The constraints of the schema are kept\<close>

lemma map_key_update:
  assumes "\<And>x. k (f x) = k x"
  shows "map k (map (\<lambda>x. if P x then f x else x) xs) = map k xs"
  by (induction xs) (simp_all add: assms)

lemma insert_into_sets_Inr:
  assumes "insert_into_sets rows db = Inr db'"
  shows "list_all (sets_fk0 db) rows" and "list_all (sets_fk1 db) rows"
    and "db' = db\<lparr>store.sets := store.sets db @ rows\<rparr>"
  using assms by (simp_all add: insert_into_sets_def split: if_splits)

lemma constraints_sets_update:
  assumes "constraints db"
    and "\<forall>s \<in> set rows. sets_fk0 db s \<and> sets_fk1 db s"
  shows "constraints (db\<lparr>store.sets := rows\<rparr>)"
proof -
  have "sets_fk0 (db\<lparr>store.sets := rows\<rparr>) = sets_fk0 db"
    and "sets_fk1 (db\<lparr>store.sets := rows\<rparr>) = sets_fk1 db"
    and "workouts_fk0 (db\<lparr>store.sets := rows\<rparr>) = workouts_fk0 db"
    by (simp_all add: fun_eq_iff sets_fk0_def sets_fk1_def workouts_fk0_def)
  with assms show ?thesis
    by (simp add: constraints_def list_all_iff)
qed

lemma constraints_workouts_update:
  assumes "constraints db"
    and "map workouts.workoutId ws = map workouts.workoutId (workouts db)"
    and "map workouts.userId ws = map workouts.userId (workouts db)"
  shows "constraints (db\<lparr>workouts := ws\<rparr>)"
proof -
  have ids: "workouts.workoutId ` set ws = workouts.workoutId ` set (workouts db)"
    using arg_cong [OF assms(2), of set] by simp
  have uids: "workouts.userId ` set ws = workouts.userId ` set (workouts db)"
    using arg_cong [OF assms(3), of set] by simp
  have fk: "workouts.userId ` set (workouts db) \<subseteq> users.userId ` set (users db)"
    using assms(1) by (auto simp: constraints_def list_all_iff workouts_fk0_def)
  have "list_all (workouts_fk0 (db\<lparr>workouts := ws\<rparr>)) ws"
    unfolding list_all_iff workouts_fk0_def using uids fk by auto
  moreover have "sets_fk0 (db\<lparr>workouts := ws\<rparr>) = sets_fk0 db"
    and "sets_fk1 (db\<lparr>workouts := ws\<rparr>) = sets_fk1 db"
    by (simp_all add: fun_eq_iff sets_fk0_def sets_fk1_def ids)
  ultimately show ?thesis
    using assms(1,2) by (simp add: constraints_def)
qed

lemma constraints_query:
  assumes "constraints db" and "query q db = Inr db'"
  shows "constraints db'"
proof -
  have ex: "execute q db = Inr db'"
    by (rule query_Inr [OF assms(2)])
  show ?thesis
  proof (cases q)
  case (UpdateSql p1 p2 p3 p4 p5)
  let ?rows = "map (\<lambda>s. if sets.setOrder s = p3 \<and> sets.workoutId s = p4 \<and> sets.exerciseId s = p5
                then s\<lparr>sets.reps := p1, sets.weight := p2\<rparr> else s) (store.sets db)"
  have "\<forall>s \<in> set (store.sets db). sets_fk0 db s \<and> sets_fk1 db s"
    using assms(1) by (simp add: constraints_def list_all_iff)
  then have "\<forall>s \<in> set ?rows. sets_fk0 db s \<and> sets_fk1 db s"
    by (auto simp: sets_fk0_def sets_fk1_def)
  from constraints_sets_update [OF assms(1) this] have "constraints (db\<lparr>store.sets := ?rows\<rparr>)" .
  moreover from UpdateSql ex have "db' = db\<lparr>store.sets := ?rows\<rparr>" by simp
  ultimately show ?thesis by simp
next
  case (AddSql p1 p2 p3 p4 p5)
  let ?rows = "[\<lparr>sets.workoutId = p4, sets.exerciseId = p5, sets.setOrder = p3,
         sets.reps = p1, sets.weight = p2\<rparr>]"
  from AddSql ex have "insert_into_sets ?rows db = Inr db'" by simp
  from insert_into_sets_Inr [OF this] constraints_append_sets [OF assms(1), of ?rows]
  show ?thesis by simp
next
  case (NameSql p1 p2)
  let ?ws = "map (\<lambda>w. if workouts.workoutId w = p1 then w\<lparr>workouts.workoutName := Some p2\<rparr> else w)
                (workouts db)"
  have "map workouts.workoutId ?ws = map workouts.workoutId (workouts db)"
    and "map workouts.userId ?ws = map workouts.userId (workouts db)"
    by (rule map_key_update, simp)+
  from constraints_workouts_update [OF assms(1) this] have "constraints (db\<lparr>workouts := ?ws\<rparr>)" .
  moreover from NameSql ex have "db' = db\<lparr>workouts := ?ws\<rparr>" by simp
  ultimately show ?thesis by simp
qed
qed

lemma constraints_query_all:
  assumes "constraints db"
  shows "constraints (snd (query_all qs db))"
  using assms
proof (induction qs arbitrary: db)
  case Nil
  then show ?case by simp
next
  case (Cons q qs)
  show ?case
  proof (cases "query q db")
    case (Inl err)
    have "snd (query_all (q # qs) db) = snd (query_all qs db)"
      by (simp add: Inl split: prod.splits)
    moreover have "constraints (snd (query_all qs db))"
      by (rule Cons.IH [OF Cons.prems])
    ultimately show ?thesis by (simp only:)
  next
    case (Inr db1)
    have "constraints db1"
      by (rule constraints_query [OF Cons.prems Inr])
    then have "constraints (snd (query_all qs db1))"
      by (rule Cons.IH)
    moreover have "snd (query_all (q # qs) db) = snd (query_all qs db1)"
      by (simp add: Inr)
    ultimately show ?thesis by (simp only:)
  qed
qed

lemma snd_patch_workout:
  "snd (patch_workout wid body db)
     = (case patch_body.exercises body of
          None \<Rightarrow> db
        | Some exs \<Rightarrow> snd (query_all (concat (map (exercise_statements wid (patch_body.workoutName body)) exs)) db))"
  by (simp add: patch_workout_def split: option.splits prod.splits list.splits)

lemma constraints_patch_workout:
  "constraints db \<Longrightarrow> constraints (snd (patch_workout wid body db))"
  by (simp add: snd_patch_workout constraints_query_all split: option.splits)

lemma constraints_users_append:
  assumes "constraints db"
    and "users.userId row \<notin> users.userId ` set (users db)"
    and "username row \<notin> username ` set (users db)"
  shows "constraints (db\<lparr>users_userId_seq := n, users := users db @ [row]\<rparr>)"
proof -
  let ?db' = "db\<lparr>users_userId_seq := n, users := users db @ [row]\<rparr>"
  have "sets_fk0 ?db' = sets_fk0 db" and "sets_fk1 ?db' = sets_fk1 db"
    by (simp_all add: fun_eq_iff sets_fk0_def sets_fk1_def)
  moreover have "list_all (workouts_fk0 ?db') (workouts db)"
    using assms(1) by (auto simp: constraints_def list_all_iff workouts_fk0_def)
  ultimately show ?thesis
    using assms by (simp add: constraints_def)
qed

lemma constraints_seq:
  assumes "constraints db"
  shows "constraints (db\<lparr>users_userId_seq := n\<rparr>)" and "constraints (db\<lparr>workouts_workoutId_seq := n\<rparr>)"
proof -
  have "sets_fk0 (db\<lparr>users_userId_seq := n\<rparr>) = sets_fk0 db"
    and "sets_fk1 (db\<lparr>users_userId_seq := n\<rparr>) = sets_fk1 db"
    and "workouts_fk0 (db\<lparr>users_userId_seq := n\<rparr>) = workouts_fk0 db"
    and "sets_fk0 (db\<lparr>workouts_workoutId_seq := n\<rparr>) = sets_fk0 db"
    and "sets_fk1 (db\<lparr>workouts_workoutId_seq := n\<rparr>) = sets_fk1 db"
    and "workouts_fk0 (db\<lparr>workouts_workoutId_seq := n\<rparr>) = workouts_fk0 db"
    by (simp_all add: fun_eq_iff sets_fk0_def sets_fk1_def workouts_fk0_def)
  with assms show "constraints (db\<lparr>users_userId_seq := n\<rparr>)"
    and "constraints (db\<lparr>workouts_workoutId_seq := n\<rparr>)"
    by (simp_all add: constraints_def)
qed

lemma constraints_sign_up:
  assumes "constraints db"
  shows "constraints (snd (sign_up uname password hashed now db))"
proof -
  let ?row = "\<lparr>users.userId = users_userId_seq db, username = uname,
                   hashedPassword = hashed, createdAt = now\<rparr>"
  have "constraints (db\<lparr>users_userId_seq := users_userId_seq db + 1, users := users db @ [?row]\<rparr>)"
    if "users_userId_seq db \<notin> users.userId ` set (users db)" and "uname \<notin> username ` set (users db)"
    using that by (intro constraints_users_append [OF assms]) simp_all
  with assms constraints_seq(1) [OF assms] show ?thesis
    by (simp add: sign_up_def Let_def)
qed

lemma constraints_workouts_append:
  assumes "constraints db"
    and "workouts.workoutId row \<notin> workouts.workoutId ` set (workouts db)"
    and "workouts_fk0 db row"
  shows "constraints (db\<lparr>workouts_workoutId_seq := n, workouts := workouts db @ [row]\<rparr>)"
proof -
  let ?db' = "db\<lparr>workouts_workoutId_seq := n, workouts := workouts db @ [row]\<rparr>"
  have "workouts_fk0 ?db' = workouts_fk0 db" and "sets_fk1 ?db' = sets_fk1 db"
    by (simp_all add: fun_eq_iff workouts_fk0_def sets_fk1_def)
  moreover have "list_all (sets_fk0 ?db') (store.sets db)"
    using assms(1) by (auto simp: constraints_def list_all_iff sets_fk0_def)
  ultimately show ?thesis
    using assms by (simp add: constraints_def)
qed

lemma constraints_new_workout:
  assumes "constraints db"
  shows "constraints (snd (new_workout uid wname db))"
proof -
  let ?row = "\<lparr>workouts.workoutId = workouts_workoutId_seq db, workouts.userId = uid,
                   workouts.completedAt = None, workouts.workoutName = wname\<rparr>"
  have "constraints (db\<lparr>workouts_workoutId_seq := workouts_workoutId_seq db + 1,
                        workouts := workouts db @ [?row]\<rparr>)"
    if "workouts_workoutId_seq db \<notin> workouts.workoutId ` set (workouts db)" and "workouts_fk0 db ?row"
    using that by (intro constraints_workouts_append [OF assms]) simp_all
  with assms constraints_seq(2) [OF assms] show ?thesis
    by (simp add: new_workout_def Let_def)
qed

lemma constraints_new_exercises:
  assumes "constraints db"
  shows "constraints (snd (new_exercises wid exerciseIds db))"
proof (cases "wid = 0 \<or> length exerciseIds < 1")
  case True
  with assms show ?thesis by (simp add: new_exercises_def)
next
  case False
  let ?rows = "map (\<lambda>e. set_row wid e 1 None None) exerciseIds"
  show ?thesis
  proof (cases "insert_into_sets ?rows db")
    case (Inl err)
    with False assms show ?thesis
      unfolding new_exercises_def Let_def new_exercises_rows by simp
  next
    case (Inr db')
    from insert_into_sets_Inr [OF Inr] constraints_append_sets [OF assms, of ?rows]
    have "constraints db'" by simp
    with False Inr show ?thesis
      unfolding new_exercises_def Let_def new_exercises_rows by simp
  qed
qed

lemma constraints_swap_exercise:
  assumes "constraints db"
  shows "constraints (snd (swap_exercise wid eid newExerciseId db))"
proof -
  have fk: "\<forall>s \<in> set (store.sets db). sets_fk0 db s \<and> sets_fk1 db s"
    using assms by (simp add: constraints_def list_all_iff)
  have "constraints (db\<lparr>store.sets := map (\<lambda>s. if sets.workoutId s = wid \<and> sets.exerciseId s = eid
                                                 then s\<lparr>sets.exerciseId := new\<rparr> else s) (store.sets db)\<rparr>)"
    if "new \<in> exercises.exerciseId ` set (store.exercises db)" for new
    using fk that
    by (intro constraints_sets_update [OF assms]) (auto simp: sets_fk0_def sets_fk1_def)
  with assms show ?thesis
    by (simp add: swap_exercise_def Let_def split: option.splits)
qed

lemma constraints_completed:
  assumes "constraints db"
  shows "constraints (snd (completed wid wname date db))"
proof -
  let ?ws = "map (\<lambda>w. if workouts.workoutId w = wid
                           then w\<lparr>workouts.completedAt := Some date, workouts.workoutName := wname\<rparr>
                           else w) (workouts db)"
  have "map workouts.workoutId ?ws = map workouts.workoutId (workouts db)"
    and "map workouts.userId ?ws = map workouts.userId (workouts db)"
    by (rule map_key_update, simp)+
  from constraints_workouts_update [OF assms this] assms show ?thesis
    by (simp add: completed_def)
qed

lemma constraints_delete_exercise:
  assumes "constraints db"
  shows "constraints (snd (delete_exercise wid eid db))"
proof -
  have fk: "\<forall>s \<in> set (store.sets db). sets_fk0 db s \<and> sets_fk1 db s"
    using assms by (simp add: constraints_def list_all_iff)
  have "constraints (db\<lparr>store.sets := filter P (store.sets db)\<rparr>)" for P
    using fk by (intro constraints_sets_update [OF assms]) simp
  with assms show ?thesis
    by (simp add: delete_exercise_def Let_def)
qed

lemma constraints_handle:
  "constraints db \<Longrightarrow> constraints (handle r db)"
  by (cases r)
     (simp_all add: constraints_sign_up constraints_new_workout constraints_new_exercises
        constraints_patch_workout constraints_swap_exercise constraints_completed
        constraints_delete_exercise constraints_empty_workouts)

lemma constraints_serve:
  "constraints db \<Longrightarrow> constraints (serve rs db)"
  by (induction rs arbitrary: db) (simp_all add: constraints_handle)

section \<open>Completion is one-way\<close>

lemma same_completion:
  assumes "map (\<lambda>w. (workouts.workoutId w, workouts.completedAt w)) (workouts db')
         = map (\<lambda>w. (workouts.workoutId w, workouts.completedAt w)) (workouts db)"
  shows "stays_completed db db'" and "completes_nothing db db'"
proof -
  have eq: "(\<lambda>w. (workouts.workoutId w, workouts.completedAt w)) ` set (workouts db')
          = (\<lambda>w. (workouts.workoutId w, workouts.completedAt w)) ` set (workouts db)"
    using arg_cong [OF assms, of set] by simp
  show "stays_completed db db'"
    unfolding stays_completed_def
  proof (intro ballI impI)
    fix w assume w: "w \<in> set (workouts db)" "workouts.completedAt w \<noteq> None"
    then have "(workouts.workoutId w, workouts.completedAt w)
                 \<in> (\<lambda>w. (workouts.workoutId w, workouts.completedAt w)) ` set (workouts db')"
      unfolding eq by (rule_tac imageI)
    with w(2) show "\<exists>w' \<in> set (workouts db'). workouts.workoutId w' = workouts.workoutId w \<and>
                                    workouts.completedAt w' \<noteq> None"
      by auto
  qed
  show "completes_nothing db db'"
    unfolding completes_nothing_def
  proof (intro ballI impI)
    fix w' assume w: "w' \<in> set (workouts db')" "workouts.completedAt w' \<noteq> None"
    then have "(workouts.workoutId w', workouts.completedAt w')
                 \<in> (\<lambda>w. (workouts.workoutId w, workouts.completedAt w)) ` set (workouts db)"
      unfolding eq [symmetric] by (rule_tac imageI)
    then show "\<exists>w \<in> set (workouts db). workouts.workoutId w = workouts.workoutId w' \<and>
                                  workouts.completedAt w = workouts.completedAt w'"
      by auto
  qed
qed

lemma same_workouts:
  assumes "workouts db' = workouts db"
  shows "stays_completed db db'" and "completes_nothing db db'"
  by (rule same_completion, simp add: assms)+

lemma completion_query:
  assumes "query q db = Inr db'"
  shows "map (\<lambda>w. (workouts.workoutId w, workouts.completedAt w)) (workouts db')
         = map (\<lambda>w. (workouts.workoutId w, workouts.completedAt w)) (workouts db)"
proof -
  have ex: "execute q db = Inr db'"
    by (rule query_Inr [OF assms])
  show ?thesis
  proof (cases q)
  case (UpdateSql p1 p2 p3 p4 p5)
  with ex show ?thesis by auto
next
  case (AddSql p1 p2 p3 p4 p5)
  with ex have "insert_into_sets [\<lparr>sets.workoutId = p4, sets.exerciseId = p5, sets.setOrder = p3,
         sets.reps = p1, sets.weight = p2\<rparr>] db = Inr db'" by simp
  from insert_into_sets_Inr(3) [OF this] show ?thesis by simp
next
  case (NameSql p1 p2)
  with ex have "workouts db' = map (\<lambda>w. if workouts.workoutId w = p1
                       then w\<lparr>workouts.workoutName := Some p2\<rparr> else w) (workouts db)"
    by auto
  then show ?thesis
    by (simp only:) (rule map_key_update, simp)
qed
qed

lemma completion_query_all:
  "map (\<lambda>w. (workouts.workoutId w, workouts.completedAt w)) (workouts (snd (query_all qs db)))
     = map (\<lambda>w. (workouts.workoutId w, workouts.completedAt w)) (workouts db)"
proof (induction qs arbitrary: db)
  case Nil
  show ?case by simp
next
  case (Cons q qs)
  show ?case
  proof (cases "query q db")
    case (Inl err)
    have "snd (query_all (q # qs) db) = snd (query_all qs db)"
      by (simp add: Inl split: prod.splits)
    then show ?thesis by (simp only: Cons.IH)
  next
    case (Inr db1)
    have "snd (query_all (q # qs) db) = snd (query_all qs db1)"
      by (simp add: Inr)
    then show ?thesis by (simp only: Cons.IH completion_query [OF Inr])
  qed
qed

lemma completion_patch_workout:
  "stays_completed db (snd (patch_workout wid body db))"
  "completes_nothing db (snd (patch_workout wid body db))"
  by (rule same_completion, simp add: snd_patch_workout completion_query_all split: option.splits)+

lemma completion_sign_up:
  "stays_completed db (snd (sign_up uname password hashed now db))"
  "completes_nothing db (snd (sign_up uname password hashed now db))"
  by (rule same_workouts, simp add: sign_up_def Let_def)+

lemma completion_new_exercises:
  "stays_completed db (snd (new_exercises wid exerciseIds db))"
  "completes_nothing db (snd (new_exercises wid exerciseIds db))"
  by (rule same_workouts,
      simp add: new_exercises_def Let_def insert_into_sets_def split: sum.splits)+

lemma completion_swap_exercise:
  "stays_completed db (snd (swap_exercise wid eid newExerciseId db))"
  "completes_nothing db (snd (swap_exercise wid eid newExerciseId db))"
  by (rule same_workouts, simp add: swap_exercise_def Let_def split: option.splits)+

lemma completion_delete_exercise:
  "stays_completed db (snd (delete_exercise wid eid db))"
  "completes_nothing db (snd (delete_exercise wid eid db))"
  by (rule same_workouts, simp add: delete_exercise_def Let_def)+

lemma completion_new_workout:
  "stays_completed db (snd (new_workout uid wname db))"
  "completes_nothing db (snd (new_workout uid wname db))"
  by (auto simp: new_workout_def Let_def stays_completed_def completes_nothing_def)

lemma completion_empty_workouts:
  "stays_completed db (snd (empty_workouts uid db))"
  "completes_nothing db (snd (empty_workouts uid db))"
  by (auto simp: empty_workouts_def Let_def stays_completed_def completes_nothing_def)

lemma workouts_completed:
  "wid \<noteq> 0 \<Longrightarrow>
   workouts (snd (completed wid wname date db))
     = map (\<lambda>w. if workouts.workoutId w = wid
                 then w\<lparr>workouts.completedAt := Some date, workouts.workoutName := wname\<rparr> else w)
         (workouts db)"
  by (simp add: completed_def)

lemma completion_completed:
  "stays_completed db (snd (completed wid wname date db))"
proof (cases "wid = 0")
  case True
  then have "workouts (snd (completed wid wname date db)) = workouts db"
    by (simp add: completed_def)
  then show ?thesis by (rule same_workouts)
next
  case False
  let ?f = "\<lambda>w. if workouts.workoutId w = wid
                 then w\<lparr>workouts.completedAt := Some date, workouts.workoutName := wname\<rparr> else w"
  show ?thesis
    unfolding stays_completed_def workouts_completed [OF False]
  proof (intro ballI impI)
    fix w assume w: "w \<in> set (workouts db)" "workouts.completedAt w \<noteq> None"
    have "workouts.workoutId (?f w) = workouts.workoutId w"
      by simp
    moreover have "workouts.completedAt (?f w) \<noteq> None"
      using w(2) by simp
    moreover have "?f w \<in> set (map ?f (workouts db))"
      using w(1) by (simp only: set_map) (rule imageI)
    ultimately show "\<exists>w' \<in> set (map ?f (workouts db)). workouts.workoutId w' = workouts.workoutId w \<and>
                                    workouts.completedAt w' \<noteq> None"
      by (rule_tac bexI [of _ "?f w"]) (rule conjI)
  qed
qed

lemma completed_writes_date:
  assumes "wid \<noteq> 0" and "w' \<in> set (workouts (snd (completed wid wname date db)))"
    and "workouts.workoutId w' = wid"
  shows "workouts.completedAt w' = Some date"
proof -
  let ?f = "\<lambda>w. if workouts.workoutId w = wid
                 then w\<lparr>workouts.completedAt := Some date, workouts.workoutName := wname\<rparr> else w"
  from assms(2) obtain v where v: "v \<in> set (workouts db)" "w' = ?f v"
    unfolding workouts_completed [OF assms(1)] by (auto simp only: set_map)
  show ?thesis
  proof (cases "workouts.workoutId v = wid")
    case True
    with v(2) show ?thesis by simp
  next
    case False
    with v(2) have "w' = v" by simp
    with False assms(3) show ?thesis by simp
  qed
qed

lemma stays_completed_handle: "stays_completed db (handle r db)"
  by (cases r)
     (simp_all add: completion_sign_up completion_new_workout completion_new_exercises
        completion_patch_workout completion_swap_exercise completion_completed
        completion_delete_exercise completion_empty_workouts same_workouts)

lemma completes_nothing_handle:
  assumes "\<forall>wid wname date. r \<noteq> Completed wid wname date"
  shows "completes_nothing db (handle r db)"
  using assms
  by (cases r)
     (simp_all add: completion_sign_up completion_new_workout completion_new_exercises
        completion_patch_workout completion_swap_exercise
        completion_delete_exercise completion_empty_workouts same_workouts)

lemma stays_completed_trans:
  assumes "stays_completed a b" and "stays_completed b c"
  shows "stays_completed a c"
  unfolding stays_completed_def
proof (intro ballI impI)
  fix w assume "w \<in> set (workouts a)" "workouts.completedAt w \<noteq> None"
  with assms(1) obtain v where v: "v \<in> set (workouts b)" "workouts.workoutId v = workouts.workoutId w"
      "workouts.completedAt v \<noteq> None"
    unfolding stays_completed_def by blast
  with assms(2) obtain u where "u \<in> set (workouts c)" "workouts.workoutId u = workouts.workoutId v"
      "workouts.completedAt u \<noteq> None"
    unfolding stays_completed_def by blast
  with v(2) show "\<exists>w' \<in> set (workouts c). workouts.workoutId w' = workouts.workoutId w \<and>
                     workouts.completedAt w' \<noteq> None"
    by auto
qed

lemma stays_completed_serve: "stays_completed db (serve rs db)"
proof (induction rs arbitrary: db)
  case Nil
  show ?case by (simp add: same_workouts)
next
  case (Cons r rs)
  have "stays_completed db (handle r db)" by (rule stays_completed_handle)
  moreover have "stays_completed (handle r db) (serve rs (handle r db))" by (rule Cons.IH)
  ultimately show ?case
    by (simp only: serve.simps) (rule stays_completed_trans)
qed

text \<open>
  C8. Whatever requests the service handles, in whatever order: a workout that is completed
  stays a completed workout, and on a store that meets the constraints of the schema no row
  of that workout has \<open>completedAt\<close> NULL afterwards. Every route but
  PATCH /api/workout/:workoutId/completed writes no \<open>completedAt\<close>: the completed
  workouts after it were completed before it, with the same timestamp. That route (for a
  workout identifier that is not 0) writes the timestamp of the call, which is not NULL, to
  the rows of the workout.
\<close>

theorem completedAt_never_reset:
  "stays_completed db (serve rs db) \<and>
   (constraints db \<longrightarrow>
      (\<forall>w \<in> set (workouts db). workouts.completedAt w \<noteq> None \<longrightarrow>
         (\<forall>w' \<in> set (workouts (serve rs db)).
            workouts.workoutId w' = workouts.workoutId w \<longrightarrow> workouts.completedAt w' \<noteq> None))) \<and>
   ((\<forall>wid wname date. r \<noteq> Completed wid wname date) \<longrightarrow> completes_nothing db (handle r db)) \<and>
   (wid \<noteq> 0 \<longrightarrow>
      (\<forall>w' \<in> set (workouts (handle (Completed wid wname date) db)).
         workouts.workoutId w' = wid \<longrightarrow> workouts.completedAt w' = Some date))"
proof (intro conjI impI ballI)
  show "stays_completed db (serve rs db)" by (rule stays_completed_serve)
next
  fix w w'
  assume c: "constraints db" and w: "w \<in> set (workouts db)" "workouts.completedAt w \<noteq> None"
    and w': "w' \<in> set (workouts (serve rs db))" "workouts.workoutId w' = workouts.workoutId w"
  from stays_completed_serve [of db rs] w obtain v where
    v: "v \<in> set (workouts (serve rs db))" "workouts.workoutId v = workouts.workoutId w"
       "workouts.completedAt v \<noteq> None"
    unfolding stays_completed_def by blast
  have "distinct (map workouts.workoutId (workouts (serve rs db)))"
    using constraints_serve [OF c, of rs] by (simp add: constraints_def)
  from key_determines_row [OF this w'(1) v(1)] w'(2) v(2) have "w' = v" by simp
  with v(3) show "workouts.completedAt w' \<noteq> None" by simp
next
  assume "\<forall>wid wname date. r \<noteq> Completed wid wname date"
  then show "completes_nothing db (handle r db)" by (rule completes_nothing_handle)
next
  fix w'
  assume "wid \<noteq> 0" "w' \<in> set (workouts (handle (Completed wid wname date) db))"
    "workouts.workoutId w' = wid"
  then show "workouts.completedAt w' = Some date"
    by (simp add: completed_writes_date)
qed

theorem completedAt_never_reset_witness:
  "constraints gym \<and>
   stays_completed gym (serve day gym) \<and>
   list_all (\<lambda>w'. workouts.workoutId w' = 1 \<longrightarrow> workouts.completedAt w' \<noteq> None)
     (workouts (serve day gym)) \<and>
   completes_nothing gym (handle (EmptyWorkouts 1) gym) \<and>
   list_all (\<lambda>w'. workouts.workoutId w' = 3 \<longrightarrow> workouts.completedAt w' = Some 99)
     (workouts (handle (Completed 3 (Some ''Legs'') 99) gym))"
proof -
  have c: "constraints gym" by code_simp
  have w: "workout_row 1 1 (Some 50) (Some ''Push'') \<in> set (workouts gym)"
    by (simp add: gym_def)
  have d: "workouts.completedAt (workout_row 1 1 (Some 50) (Some ''Push'')) \<noteq> None"
    and i: "workouts.workoutId (workout_row 1 1 (Some 50) (Some ''Push'')) = 1"
    by (simp_all add: workout_row_def)
  have r: "\<forall>wid wname date. EmptyWorkouts 1 \<noteq> Completed wid wname date" by simp
  have z: "(3::int) \<noteq> 0" by simp
  note t = completedAt_never_reset [of gym day "EmptyWorkouts 1" 3 "Some ''Legs''" 99]
  have a: "stays_completed gym (serve day gym)"
    by (rule t [THEN conjunct1])
  have b: "list_all (\<lambda>w'. workouts.workoutId w' = 1 \<longrightarrow> workouts.completedAt w' \<noteq> None)
     (workouts (serve day gym))"
    using t [THEN conjunct2, THEN conjunct1, THEN mp, OF c, THEN bspec, OF w, THEN mp, OF d]
    unfolding i list_all_iff .
  have e: "completes_nothing gym (handle (EmptyWorkouts 1) gym)"
    by (rule t [THEN conjunct2, THEN conjunct2, THEN conjunct1, THEN mp, OF r])
  have f: "list_all (\<lambda>w'. workouts.workoutId w' = 3 \<longrightarrow> workouts.completedAt w' = Some 99)
     (workouts (handle (Completed 3 (Some ''Legs'') 99) gym))"
    using t [THEN conjunct2, THEN conjunct2, THEN conjunct2, THEN mp, OF z]
    unfolding list_all_iff .
  from c a b e f show ?thesis by (intro conjI)
qed

section \<open>The name of the workout\<close>

text \<open>
  The other side of C3: with at least one exercise in the list, a non-empty name and a
  workout identifier within its 32 bits, the name statement is issued (once per exercise)
  and the workout carries the new name afterwards, whatever becomes of the other
  statements.
\<close>

lemma workouts_sets_commute:
  "db\<lparr>workouts := a, store.sets := b\<rparr> = db\<lparr>store.sets := b, workouts := a\<rparr>"
  by (cases db) simp

lemma workouts_query_all_named:
  assumes "\<forall>q \<in> set qs. \<forall>w m. q = NameSql w m \<longrightarrow> w = wid \<and> m = n" and "n \<noteq> []"
    and "int4 wid"
  shows "workouts (snd (query_all qs db))
           = (if NameSql wid n \<in> set qs then named wid (Some n) (workouts db) else workouts db)
       \<and> workouts (snd (query_all qs (db\<lparr>workouts := named wid (Some n) (workouts db)\<rparr>)))
           = named wid (Some n) (workouts db)"
  using assms(1)
proof (induction qs arbitrary: db)
  case Nil
  then show ?case by simp
next
  case (Cons q qs)
  let ?N = "named wid (Some n)"
  let ?db' = "db\<lparr>workouts := ?N (workouts db)\<rparr>"
  from Cons.prems have qs: "\<forall>q \<in> set qs. \<forall>w m. q = NameSql w m \<longrightarrow> w = wid \<and> m = n"
    by simp
  note IH = Cons.IH [OF qs]
  have refused: ?case if "\<not> binds q"
  proof -
    from that have "snd (query_all (q # qs) db) = snd (query_all qs db)"
      and "snd (query_all (q # qs) ?db') = snd (query_all qs ?db')"
      by (simp_all add: query_def split: prod.splits)
    moreover from that assms(3) Cons.prems have "q \<noteq> NameSql wid n"
      by auto
    ultimately show ?thesis
      using IH [of db] by simp
  qed
  show ?case
  proof (cases q)
    case (UpdateSql p1 p2 p3 p4 p5)
    let ?u = "\<lambda>rows. map (\<lambda>s. if sets.setOrder s = p3 \<and> sets.workoutId s = p4 \<and> sets.exerciseId s = p5
                then s\<lparr>sets.reps := p1, sets.weight := p2\<rparr> else s) rows"
    show ?thesis
    proof (cases "binds q")
      case True
      then have "snd (query_all (q # qs) db) = snd (query_all qs (db\<lparr>store.sets := ?u (store.sets db)\<rparr>))"
        and "snd (query_all (q # qs) ?db')
               = snd (query_all qs (db\<lparr>store.sets := ?u (store.sets db)\<rparr>
                                      \<lparr>workouts := ?N (workouts (db\<lparr>store.sets := ?u (store.sets db)\<rparr>))\<rparr>))"
        by (simp_all add: UpdateSql query_def workouts_sets_commute)
      with IH [of "db\<lparr>store.sets := ?u (store.sets db)\<rparr>"] UpdateSql show ?thesis
        by (simp add: workouts_sets_commute)
    next
      case False
      then show ?thesis by (rule refused)
    qed
  next
    case (AddSql p1 p2 p3 p4 p5)
    let ?rows = "[\<lparr>sets.workoutId = p4, sets.exerciseId = p5, sets.setOrder = p3,
         sets.reps = p1, sets.weight = p2\<rparr>]"
    let ?a = "db\<lparr>store.sets := store.sets db @ ?rows\<rparr>"
    have ids: "sets_fk0 ?db' = sets_fk0 db" "sets_fk1 ?db' = sets_fk1 db"
      by (simp_all add: fun_eq_iff sets_fk0_def sets_fk1_def named_ids)
    show ?thesis
    proof (cases "binds q")
      case bound: True
      show ?thesis
      proof (cases "list_all (sets_fk0 db) ?rows \<and> list_all (sets_fk1 db) ?rows")
        case True
        with bound have "snd (query_all (q # qs) db) = snd (query_all qs ?a)"
          and "snd (query_all (q # qs) ?db') = snd (query_all qs (?a\<lparr>workouts := ?N (workouts ?a)\<rparr>))"
          using ids by (simp_all add: AddSql query_def insert_into_sets_def workouts_sets_commute)
        with IH [of ?a] AddSql show ?thesis by (simp add: workouts_sets_commute)
      next
        case False
        with bound have "snd (query_all (q # qs) db) = snd (query_all qs db)"
          and "snd (query_all (q # qs) ?db') = snd (query_all qs ?db')"
          using ids by (auto simp: AddSql query_def insert_into_sets_def split: prod.splits)
        with IH [of db] AddSql show ?thesis by simp
      qed
    next
      case False
      then show ?thesis by (rule refused)
    qed
  next
    case (NameSql p1 p2)
    with Cons.prems have p: "p1 = wid" "p2 = n" by simp_all
    have nm: "map (\<lambda>w. if workouts.workoutId w = wid then w\<lparr>workouts.workoutName := Some n\<rparr> else w) ws
          = ?N ws" for ws
      using assms(2) by (simp add: named_def)
    have "snd (query_all (q # qs) db) = snd (query_all qs ?db')"
      and "snd (query_all (q # qs) ?db') = snd (query_all qs ?db')"
      using assms(3) by (simp_all add: NameSql p nm named_named query_def)
    with IH [of db] NameSql p show ?thesis by simp
  qed
qed

lemma patch_workout_name_with_exercise:
  assumes "exs \<noteq> []" and "n \<noteq> []" and "int4 wid"
  shows "workouts (snd (patch_workout wid \<lparr>patch_body.exercises = Some exs,
                                          patch_body.workoutName = Some n\<rparr> db))
           = map (\<lambda>w. if workouts.workoutId w = wid then w\<lparr>workouts.workoutName := Some n\<rparr> else w)
               (workouts db)"
proof -
  let ?qs = "concat (map (exercise_statements wid (Some n)) exs)"
  have only: "\<forall>q \<in> set ?qs. \<forall>w m. q = NameSql w m \<longrightarrow> w = wid \<and> m = n"
    by (auto simp: exercise_statements_def set_statement_def split: if_splits)
  from assms(1) obtain ex rest where "exs = ex # rest" by (cases exs) auto
  with assms(2) have "NameSql wid n \<in> set ?qs"
    by (simp add: exercise_statements_def)
  with workouts_query_all_named [OF only assms(2) assms(3), of db]
  have "workouts (snd (query_all ?qs db)) = named wid (Some n) (workouts db)" by simp
  with assms(2) show ?thesis
    by (simp add: snd_patch_workout named_def)
qed

section \<open>The best set of each exercise of each workout\<close>

lemma from_join_iff:
  "(s, w, e) \<in> set (from_join uid db) \<longleftrightarrow>
     s \<in> set (store.sets db) \<and> w \<in> set (workouts db) \<and>
     workouts.workoutId w = sets.workoutId s \<and>
     e \<in> set (store.exercises db) \<and> exercises.exerciseId e = sets.exerciseId s \<and>
     sets.reps s \<noteq> None \<and> sets.weight s \<noteq> None \<and> workouts.userId w = uid"
  by (auto simp: from_join_def split: if_splits)

lemma concat_map_filter_skip:
  assumes "\<And>x. x \<in> set xs \<Longrightarrow> \<not> P x \<Longrightarrow> f x = []"
  shows "concat (map f (filter P xs)) = concat (map f xs)"
  using assms by (induction xs) simp_all

lemma from_join_filled:
  "from_join uid (db\<lparr>store.sets := filter (\<lambda>s. sets.reps s \<noteq> None \<and> sets.weight s \<noteq> None)
                                      (store.sets db)\<rparr>)
     = from_join uid db"
proof -
  let ?db' = "db\<lparr>store.sets := filter (\<lambda>s. sets.reps s \<noteq> None \<and> sets.weight s \<noteq> None)
                                      (store.sets db)\<rparr>"
  have sel: "store.sets ?db' = filter (\<lambda>s. sets.reps s \<noteq> None \<and> sets.weight s \<noteq> None) (store.sets db)"
    "workouts ?db' = workouts db" "store.exercises ?db' = store.exercises db"
    by simp_all
  show ?thesis
    unfolding from_join_def sel
    by (rule concat_map_filter_skip) auto
qed

lemma rest_of_enumerate:
  "1 < n \<Longrightarrow> concat (map (\<lambda>(rn, x). if rn = (1::nat) then f x else []) (enumerate n xs)) = []"
proof -
  assume n: "1 < n"
  have "(case p of (rn, x) \<Rightarrow> if rn = (1::nat) then f x else []) = []"
    if "p \<in> set (enumerate n xs)" for p
  proof -
    from that have "n \<le> fst p" by (simp add: in_set_enumerate_eq)
    with n show ?thesis by (cases p) simp
  qed
  then show ?thesis by simp
qed

lemma first_of_enumerate:
  "concat (map (\<lambda>(rn, x). if rn = (1::nat) then f x else []) (enumerate 1 xs))
     = (case xs of [] \<Rightarrow> [] | x # rest \<Rightarrow> f x)"
proof (cases xs)
  case Nil
  then show ?thesis by simp
next
  case (Cons a list)
  have "concat (map (\<lambda>(rn, x). if rn = (1::nat) then f x else []) (enumerate (Suc 1) list)) = []"
    by (rule rest_of_enumerate) simp
  then show ?thesis
    unfolding Cons by (simp del: concat_eq_Nil_conv)
qed

lemma concat_map_concat_map:
  "concat (map g (concat (map h xs))) = concat (map (\<lambda>x. concat (map g (h x))) xs)"
  by (induction xs) simp_all

lemma concat_map_the_one:
  assumes "distinct xs" and "a \<in> set xs"
  shows "concat (map (\<lambda>x. if x = a then [f x] else []) xs) = [f a]"
  using assms
proof (induction xs)
  case Nil
  then show ?case by simp
next
  case (Cons x xs)
  show ?case
  proof (cases "x = a")
    case True
    with Cons.prems have "a \<notin> set xs" by simp
    then have "concat (map (\<lambda>x. if x = a then [f x] else []) xs) = []"
      by (induction xs) auto
    with True show ?thesis by simp
  next
    case False
    with Cons show ?thesis by simp
  qed
qed

lemma sorted_hd_least:
  assumes "sorted (map f xs)" and "x \<in> set xs"
  shows "f (hd xs) \<le> f x"
  using assms by (cases xs) auto

lemma best_join_total_numbered:
  "best_join_total uid db
     = concat (map (\<lambda>(rn, b). if rn = 1 then joined_totals uid db b else []) (bestSetCTE uid db))"
proof -
  have "(\<lambda>(row_number, s, w, e).
          concat (map (\<lambda>(n, eid, wid, c).
                    if wid = sets.workoutId s \<and> eid = sets.exerciseId s
                    then if row_number = 1 then [selected s w e n c] else []
                    else []) (totalSetsCTE uid db)))
      = (\<lambda>(rn, b). if rn = (1::nat) then joined_totals uid db b else [])"
    by (auto simp: fun_eq_iff joined_totals_def cong: if_cong)
  then show ?thesis
    unfolding best_join_total_def by (simp only:)
qed

lemma best_join_total_partitions:
  "best_join_total uid db
     = concat (map (\<lambda>p. case partition_rows uid db p of
                           [] \<Rightarrow> []
                         | b # rest \<Rightarrow> joined_totals uid db b) (partitions uid db))"
  unfolding best_join_total_numbered bestSetCTE_def concat_map_concat_map first_of_enumerate ..

lemma set_partition_rows:
  "set (partition_rows uid db p) = {r \<in> set (from_join uid db). partition_of r = p}"
  by (simp add: partition_rows_def grouped_def)

lemma set_partitions:
  "set (partitions uid db) = partition_of ` set (from_join uid db)"
  by (simp add: partitions_def grouped_def)

lemma partition_rows_hd:
  assumes "p \<in> set (partitions uid db)"
  shows "partition_rows uid db p \<noteq> []"
    and "hd (partition_rows uid db p) \<in> set (from_join uid db)"
    and "partition_of (hd (partition_rows uid db p)) = p"
    and "\<forall>r \<in> set (from_join uid db). partition_of r = p \<longrightarrow>
           volume_desc (hd (partition_rows uid db p)) \<le> volume_desc r"
proof -
  from assms obtain r where "r \<in> set (from_join uid db)" "partition_of r = p"
    unfolding set_partitions by blast
  then have "r \<in> set (partition_rows uid db p)"
    by (simp add: set_partition_rows)
  then show ne: "partition_rows uid db p \<noteq> []" by auto
  then have "hd (partition_rows uid db p) \<in> set (partition_rows uid db p)"
    by (rule hd_in_set)
  then show "hd (partition_rows uid db p) \<in> set (from_join uid db)"
    and "partition_of (hd (partition_rows uid db p)) = p"
    by (simp_all add: set_partition_rows)
  have "sorted (map volume_desc (partition_rows uid db p))"
    by (simp add: partition_rows_def)
  then show "\<forall>r \<in> set (from_join uid db). partition_of r = p \<longrightarrow>
           volume_desc (hd (partition_rows uid db p)) \<le> volume_desc r"
    by (auto intro!: sorted_hd_least simp: set_partition_rows)
qed


lemma group_of_match:
  assumes "constraints db" and "(s, w, e) \<in> set (from_join uid db)"
    and "g \<in> group_of ` set (from_join uid db)"
  shows "(case g of (e_eid, wid, s_eid, c) \<Rightarrow> wid = sets.workoutId s \<and> s_eid = sets.exerciseId s)
           \<longleftrightarrow> g = group_of (s, w, e)"
proof -
  from assms(3) obtain s' w' e' where r: "(s', w', e') \<in> set (from_join uid db)"
    and g: "g = group_of (s', w', e')"
    by auto
  from assms(2) have b: "w \<in> set (workouts db)" "workouts.workoutId w = sets.workoutId s"
      "exercises.exerciseId e = sets.exerciseId s"
    by (simp_all add: from_join_iff)
  from r have r': "w' \<in> set (workouts db)" "workouts.workoutId w' = sets.workoutId s'"
      "exercises.exerciseId e' = sets.exerciseId s'"
    by (simp_all add: from_join_iff)
  have d: "distinct (map workouts.workoutId (workouts db))"
    using assms(1) by (simp add: constraints_def)
  show ?thesis
  proof
    assume "case g of (e_eid, wid, s_eid, c) \<Rightarrow> wid = sets.workoutId s \<and> s_eid = sets.exerciseId s"
    with g have m: "workouts.workoutId w' = sets.workoutId s" "sets.exerciseId s' = sets.exerciseId s"
      by (simp_all add: group_of_def)
    with b(2) have "workouts.workoutId w' = workouts.workoutId w" by simp
    from key_determines_row [OF d r'(1) b(1) this] have "w' = w" .
    with g m b r' show "g = group_of (s, w, e)"
      by (simp add: group_of_def)
  next
    assume "g = group_of (s, w, e)"
    with b show "case g of (e_eid, wid, s_eid, c) \<Rightarrow> wid = sets.workoutId s \<and> s_eid = sets.exerciseId s"
      by (simp add: group_of_def)
  qed
qed

lemma joined_totals_one:
  assumes "constraints db" and "b \<in> set (from_join uid db)"
  shows "joined_totals uid db b = [best_row uid db b]"
proof -
  obtain s w e where b: "b = (s, w, e)" by (cases b)
  let ?gs = "remdups (map group_of (from_join uid db))"
  let ?row = "\<lambda>g. case g of (e_eid, wid, s_eid, c) \<Rightarrow>
                selected s w e (length (filter (\<lambda>r. group_of r = g) (from_join uid db))) c"
  have "joined_totals uid db b
          = concat (map (\<lambda>g. case g of (e_eid, wid, s_eid, c) \<Rightarrow>
                           if wid = sets.workoutId s \<and> s_eid = sets.exerciseId s then [?row g] else [])
                        ?gs)"
    by (simp add: joined_totals_def totalSetsCTE_def b comp_def case_prod_unfold Let_def cong: if_cong)
  also have "\<dots> = concat (map (\<lambda>g. if g = group_of (s, w, e) then [?row g] else []) ?gs)"
  proof (rule arg_cong [where f = concat], rule map_cong [OF refl])
    fix g assume "g \<in> set ?gs"
    then have "g \<in> group_of ` set (from_join uid db)" by simp
    from group_of_match [OF assms(1) assms(2) [unfolded b] this]
    show "(case g of (e_eid, wid, s_eid, c) \<Rightarrow>
             if wid = sets.workoutId s \<and> s_eid = sets.exerciseId s then [?row g] else [])
          = (if g = group_of (s, w, e) then [?row g] else [])"
      by (cases g) auto
  qed
  also have "\<dots> = [?row (group_of (s, w, e))]"
    using assms(2) by (intro concat_map_the_one) (simp_all add: b)
  also have "\<dots> = [best_row uid db b]"
    by (simp add: best_row_def total_sets_def b group_of_def)
  finally show ?thesis .
qed

lemma best_join_total_rows:
  assumes "constraints db"
  shows "best_join_total uid db
           = map (\<lambda>p. best_row uid db (hd (partition_rows uid db p))) (partitions uid db)"
proof -
  have "(case partition_rows uid db p of [] \<Rightarrow> [] | b # rest \<Rightarrow> joined_totals uid db b)
          = [best_row uid db (hd (partition_rows uid db p))]"
    if "p \<in> set (partitions uid db)" for p
  proof -
    from partition_rows_hd(1,2) [OF that] joined_totals_one [OF assms]
    have "joined_totals uid db (hd (partition_rows uid db p))
            = [best_row uid db (hd (partition_rows uid db p))]"
      and "partition_rows uid db p \<noteq> []"
      by simp_all
    then show ?thesis
      by (cases "partition_rows uid db p") simp_all
  qed
  then have "map (\<lambda>p. case partition_rows uid db p of [] \<Rightarrow> [] | b # rest \<Rightarrow> joined_totals uid db b)
               (partitions uid db)
           = map (\<lambda>p. [best_row uid db (hd (partition_rows uid db p))]) (partitions uid db)"
    by (intro map_cong [OF refl])
  then have "best_join_total uid db
           = concat (map (\<lambda>p. [best_row uid db (hd (partition_rows uid db p))]) (partitions uid db))"
    unfolding best_join_total_partitions by (simp only:)
  also have "\<dots> = map (\<lambda>p. best_row uid db (hd (partition_rows uid db p))) (partitions uid db)"
    by simp
  finally show ?thesis .
qed

lemma best_join_total_filled:
  "best_join_total uid (db\<lparr>store.sets := filter (\<lambda>s. sets.reps s \<noteq> None \<and> sets.weight s \<noteq> None)
                                            (store.sets db)\<rparr>)
     = best_join_total uid db"
  unfolding best_join_total_def bestSetCTE_def partitions_def partition_rows_def grouped_def
    totalSetsCTE_def from_join_filled ..

lemma set_insert_by: "set (insert_by collate key x xs) = insert x (set xs)"
  by (induction xs) auto

lemma set_order_by: "set (order_by collate key xs) = set xs"
  by (induction xs) (simp_all add: set_insert_by)

lemma distinct_map_insert_by:
  "distinct (map f (insert_by collate key x xs)) = distinct (map f (x # xs))"
  by (induction xs) (auto simp: set_insert_by)

lemma distinct_map_order_by:
  "distinct (map f (order_by collate key xs)) = distinct (map f xs)"
  by (induction xs) (simp_all add: distinct_map_insert_by set_order_by)

lemma sorted_insert_by:
  assumes total: "\<forall>a b. collate a b \<or> collate b a"
    and trans: "\<forall>a b c. collate a b \<longrightarrow> collate b c \<longrightarrow> collate a c"
    and "sorted_wrt (\<lambda>a b. collate (key a) (key b)) xs"
  shows "sorted_wrt (\<lambda>a b. collate (key a) (key b)) (insert_by collate key x xs)"
  using assms(3)
proof (induction xs)
  case Nil
  then show ?case by simp
next
  case (Cons y ys)
  show ?case
  proof (cases "collate (key x) (key y)")
    case True
    have "collate (key x) (key z)" if "z \<in> set ys" for z
    proof -
      from Cons.prems that have "collate (key y) (key z)" by simp
      with True trans show ?thesis by blast
    qed
    with True Cons.prems show ?thesis by simp
  next
    case False
    with total have "collate (key y) (key x)" by blast
    moreover from Cons have "sorted_wrt (\<lambda>a b. collate (key a) (key b)) (insert_by collate key x ys)"
      by simp
    ultimately show ?thesis
      using False Cons.prems by (simp add: set_insert_by)
  qed
qed

lemma sorted_order_by:
  assumes "\<forall>a b. collate a b \<or> collate b a"
    and "\<forall>a b c. collate a b \<longrightarrow> collate b c \<longrightarrow> collate a c"
  shows "sorted_wrt (\<lambda>a b. collate (key a) (key b)) (order_by collate key xs)"
  by (induction xs) (simp_all add: sorted_insert_by [OF assms])

lemma pair_best_row:
  "(workout_sets_row.workoutId (best_row uid db b), workout_sets_row.exerciseId (best_row uid db b))
     = partition_of b"
  by (cases b) (simp add: best_row_def selected_def partition_of_def)

lemma pairs_best_join_total:
  assumes "constraints db"
  shows "map (\<lambda>r. (workout_sets_row.workoutId r, workout_sets_row.exerciseId r)) (best_join_total uid db)
           = partitions uid db"
proof -
  have "map (\<lambda>r. (workout_sets_row.workoutId r, workout_sets_row.exerciseId r)) (best_join_total uid db)
          = map (\<lambda>p. partition_of (hd (partition_rows uid db p))) (partitions uid db)"
    unfolding best_join_total_rows [OF assms] by (simp add: comp_def pair_best_row)
  also have "\<dots> = map (\<lambda>p. p) (partitions uid db)"
    by (rule map_cong [OF refl]) (rule partition_rows_hd(3))
  finally show ?thesis by simp
qed

lemma partitions_pairs:
  assumes "constraints db"
  shows "set (partitions uid db)
           = (\<lambda>s. (sets.workoutId s, sets.exerciseId s)) `
               {s \<in> set (store.sets db). sets.reps s \<noteq> None \<and> sets.weight s \<noteq> None \<and>
                  (\<exists>w \<in> set (workouts db). workouts.workoutId w = sets.workoutId s \<and>
                                            workouts.userId w = uid)}"
    (is "?L = ?R")
proof (rule set_eqI, rule iffI)
  fix p assume "p \<in> ?L"
  then obtain s w e where r: "(s, w, e) \<in> set (from_join uid db)" and p: "p = partition_of (s, w, e)"
    unfolding set_partitions by auto
  from r have "s \<in> set (store.sets db)" "sets.reps s \<noteq> None" "sets.weight s \<noteq> None"
    "w \<in> set (workouts db)" "workouts.workoutId w = sets.workoutId s" "workouts.userId w = uid"
    by (simp_all add: from_join_iff)
  then have "s \<in> {s \<in> set (store.sets db). sets.reps s \<noteq> None \<and> sets.weight s \<noteq> None \<and>
                  (\<exists>w \<in> set (workouts db). workouts.workoutId w = sets.workoutId s \<and>
                                            workouts.userId w = uid)}"
    by blast
  moreover from p have "p = (sets.workoutId s, sets.exerciseId s)"
    by (simp add: partition_of_def)
  ultimately show "p \<in> ?R" by (rule_tac image_eqI)
next
  fix p assume "p \<in> ?R"
  then obtain s w where s: "s \<in> set (store.sets db)" "sets.reps s \<noteq> None" "sets.weight s \<noteq> None"
    and w: "w \<in> set (workouts db)" "workouts.workoutId w = sets.workoutId s" "workouts.userId w = uid"
    and p: "p = (sets.workoutId s, sets.exerciseId s)"
    by auto
  from assms s(1) have "sets_fk1 db s"
    by (simp add: constraints_def list_all_iff)
  then obtain e where "e \<in> set (store.exercises db)" "exercises.exerciseId e = sets.exerciseId s"
    by (auto simp: sets_fk1_def)
  with s w have "(s, w, e) \<in> set (from_join uid db)"
    by (simp add: from_join_iff)
  moreover from p have "p = partition_of (s, w, e)"
    by (simp add: partition_of_def)
  ultimately show "p \<in> ?L"
    unfolding set_partitions by (rule_tac image_eqI)
qed

lemma best_row_greatest:
  assumes "p \<in> set (partitions uid db)"
  shows "\<exists>n k. workout_sets_row.reps (best_row uid db (hd (partition_rows uid db p))) = Some n \<and>
           workout_sets_row.weight (best_row uid db (hd (partition_rows uid db p))) = Some k \<and>
           (\<exists>s \<in> set (store.sets db). (sets.workoutId s, sets.exerciseId s) = p \<and>
              sets.reps s = Some n \<and> sets.weight s = Some k) \<and>
           (\<forall>s \<in> set (store.sets db). (sets.workoutId s, sets.exerciseId s) = p \<longrightarrow>
              (\<forall>n' k'. sets.reps s = Some n' \<and> sets.weight s = Some k' \<longrightarrow>
                 of_int n' * k' \<le> of_int n * k))"
proof -
  obtain s w e where b: "hd (partition_rows uid db p) = (s, w, e)"
    by (cases "hd (partition_rows uid db p)")
  from partition_rows_hd(2,3) [OF assms] have j: "(s, w, e) \<in> set (from_join uid db)"
    and p: "partition_of (s, w, e) = p"
    by (simp_all add: b)
  from j have m: "s \<in> set (store.sets db)" "w \<in> set (workouts db)"
    "workouts.workoutId w = sets.workoutId s" "e \<in> set (store.exercises db)"
    "exercises.exerciseId e = sets.exerciseId s" "workouts.userId w = uid"
    and "sets.reps s \<noteq> None" "sets.weight s \<noteq> None"
    by (simp_all add: from_join_iff)
  then obtain n k where nk: "sets.reps s = Some n" "sets.weight s = Some k"
    by auto
  have best: "of_int n' * k' \<le> of_int n * k"
    if s': "s' \<in> set (store.sets db)" "(sets.workoutId s', sets.exerciseId s') = p"
      "sets.reps s' = Some n'" "sets.weight s' = Some k'" for s' n' k'
  proof -
    from s'(2) p have same: "sets.workoutId s' = sets.workoutId s" "sets.exerciseId s' = sets.exerciseId s"
      by (auto simp: partition_of_def)
    with s' m have "(s', w, e) \<in> set (from_join uid db)"
      by (simp add: from_join_iff)
    moreover from s'(2) have "partition_of (s', w, e) = p"
      by (simp add: partition_of_def)
    ultimately have "volume_desc (hd (partition_rows uid db p)) \<le> volume_desc (s', w, e)"
      using partition_rows_hd(4) [OF assms] by blast
    then show ?thesis
      by (simp add: b volume_desc_def volume_def nk s')
  qed
  have "workout_sets_row.reps (best_row uid db (s, w, e)) = Some n"
    and "workout_sets_row.weight (best_row uid db (s, w, e)) = Some k"
    by (simp_all add: best_row_def selected_def nk)
  moreover have "\<exists>s \<in> set (store.sets db). (sets.workoutId s, sets.exerciseId s) = p \<and>
              sets.reps s = Some n \<and> sets.weight s = Some k"
    using m(1) p nk by (auto simp: partition_of_def)
  ultimately show ?thesis
    unfolding b using best by blast
qed

lemma best_row_exercise:
  assumes "constraints db" and "p \<in> set (partitions uid db)"
  shows "(\<exists>e \<in> set (store.exercises db).
            exercises.exerciseId e
              = workout_sets_row.exerciseId (best_row uid db (hd (partition_rows uid db p))) \<and>
            exercises.name e
              = workout_sets_row.name (best_row uid db (hd (partition_rows uid db p)))) \<and>
         (\<forall>e \<in> set (store.exercises db).
            exercises.exerciseId e
              = workout_sets_row.exerciseId (best_row uid db (hd (partition_rows uid db p))) \<longrightarrow>
            exercises.name e
              = workout_sets_row.name (best_row uid db (hd (partition_rows uid db p))))"
proof -
  obtain s w e where b: "hd (partition_rows uid db p) = (s, w, e)"
    by (cases "hd (partition_rows uid db p)")
  from partition_rows_hd(2) [OF assms(2)] have "(s, w, e) \<in> set (from_join uid db)"
    by (simp add: b)
  then have e: "e \<in> set (store.exercises db)" "exercises.exerciseId e = sets.exerciseId s"
    by (simp_all add: from_join_iff)
  have row: "workout_sets_row.exerciseId (best_row uid db (s, w, e)) = sets.exerciseId s"
    "workout_sets_row.name (best_row uid db (s, w, e)) = exercises.name e"
    by (simp_all add: best_row_def selected_def)
  have d: "distinct (map exercises.exerciseId (store.exercises db))"
    using assms(1) by (simp add: constraints_def)
  have "exercises.name e' = exercises.name e"
    if "e' \<in> set (store.exercises db)" "exercises.exerciseId e' = sets.exerciseId s" for e'
  proof -
    from that(2) e(2) have "exercises.exerciseId e' = exercises.exerciseId e" by simp
    from key_determines_row [OF d that(1) e(1) this] show ?thesis by simp
  qed
  with e show ?thesis
    unfolding b row by blast
qed

text \<open>
  C6. GET /api/user/workout-sets for a user (identifier not 0) on a store that meets the
  constraints of the schema, under a collation that compares any two names and is
  transitive, replies 200 with rows such that: the reply is the same when the set rows
  with \<open>reps\<close> or \<open>weight\<close> NULL are removed from the store; every row bears the name of
  the exercise of its \<open>exerciseId\<close>, and the rows are in ascending order of that name
  under the collation; no two rows have the same (workout, exercise) pair, and the pairs
  of the rows are exactly the pairs of the set rows with \<open>reps\<close> and \<open>weight\<close> present in
  a workout of the user; and every row bears the \<open>reps\<close> and \<open>weight\<close> of a set row of
  its pair whose volume \<open>reps * weight\<close> is at least the volume of every set row of the
  pair that has both.
\<close>

theorem workout_sets_best_set:
  assumes "constraints db" and "uid \<noteq> 0"
    and "\<forall>a b. collate a b \<or> collate b a"
    and "\<forall>a b c. collate a b \<longrightarrow> collate b c \<longrightarrow> collate a c"
  shows "\<exists>rows. workout_sets collate uid db = Inr (200, rows) \<and>
     workout_sets collate uid
       (db\<lparr>store.sets := filter (\<lambda>s. sets.reps s \<noteq> None \<and> sets.weight s \<noteq> None)
                            (store.sets db)\<rparr>) = Inr (200, rows) \<and>
     sorted_wrt (\<lambda>a b. collate (workout_sets_row.name a) (workout_sets_row.name b)) rows \<and>
     (\<forall>r \<in> set rows.
        (\<exists>e \<in> set (store.exercises db).
           exercises.exerciseId e = workout_sets_row.exerciseId r \<and>
           exercises.name e = workout_sets_row.name r) \<and>
        (\<forall>e \<in> set (store.exercises db).
           exercises.exerciseId e = workout_sets_row.exerciseId r \<longrightarrow>
           exercises.name e = workout_sets_row.name r)) \<and>
     distinct (map (\<lambda>r. (workout_sets_row.workoutId r, workout_sets_row.exerciseId r)) rows) \<and>
     set (map (\<lambda>r. (workout_sets_row.workoutId r, workout_sets_row.exerciseId r)) rows)
       = (\<lambda>s. (sets.workoutId s, sets.exerciseId s)) `
           {s \<in> set (store.sets db). sets.reps s \<noteq> None \<and> sets.weight s \<noteq> None \<and>
              (\<exists>w \<in> set (workouts db). workouts.workoutId w = sets.workoutId s \<and>
                                        workouts.userId w = uid)} \<and>
     (\<forall>r \<in> set rows. \<exists>n k.
        workout_sets_row.reps r = Some n \<and> workout_sets_row.weight r = Some k \<and>
        (\<exists>s \<in> set (store.sets db).
           sets.workoutId s = workout_sets_row.workoutId r \<and>
           sets.exerciseId s = workout_sets_row.exerciseId r \<and>
           sets.reps s = Some n \<and> sets.weight s = Some k) \<and>
        (\<forall>s \<in> set (store.sets db).
           sets.workoutId s = workout_sets_row.workoutId r \<and>
           sets.exerciseId s = workout_sets_row.exerciseId r \<longrightarrow>
           (\<forall>n' k'. sets.reps s = Some n' \<and> sets.weight s = Some k' \<longrightarrow>
              of_int n' * k' \<le> of_int n * k)))"
proof -
  let ?pair = "\<lambda>r. (workout_sets_row.workoutId r, workout_sets_row.exerciseId r)"
  let ?R = "best_join_total uid db"
  let ?rows = "order_by collate workout_sets_row.name ?R"
  have run: "workout_sets collate uid db = Inr (200, ?rows)"
    using assms(2) by (simp add: workout_sets_def)
  have filled: "workout_sets collate uid
       (db\<lparr>store.sets := filter (\<lambda>s. sets.reps s \<noteq> None \<and> sets.weight s \<noteq> None)
                            (store.sets db)\<rparr>) = Inr (200, ?rows)"
    unfolding workout_sets_def best_join_total_filled using assms(2) by simp
  have ordered: "sorted_wrt (\<lambda>a b. collate (workout_sets_row.name a) (workout_sets_row.name b)) ?rows"
    by (rule sorted_order_by [OF assms(3) assms(4)])
  have pairs: "map ?pair ?R = partitions uid db"
    by (rule pairs_best_join_total [OF assms(1)])
  have "distinct (map ?pair ?R)"
    unfolding pairs by (simp add: partitions_def)
  then have once: "distinct (map ?pair ?rows)"
    by (simp only: distinct_map_order_by)
  have "set (map ?pair ?rows) = set (map ?pair ?R)"
    by (simp add: set_order_by)
  then have every: "set (map ?pair ?rows)
       = (\<lambda>s. (sets.workoutId s, sets.exerciseId s)) `
           {s \<in> set (store.sets db). sets.reps s \<noteq> None \<and> sets.weight s \<noteq> None \<and>
              (\<exists>w \<in> set (workouts db). workouts.workoutId w = sets.workoutId s \<and>
                                        workouts.userId w = uid)}"
    unfolding pairs partitions_pairs [OF assms(1)] .
  have from_partition: "\<exists>p \<in> set (partitions uid db). r = best_row uid db (hd (partition_rows uid db p))"
    if "r \<in> set ?rows" for r
  proof -
    from that have "r \<in> set ?R" by (simp add: set_order_by)
    then show ?thesis
      unfolding best_join_total_rows [OF assms(1)] by auto
  qed
  have named: "(\<exists>e \<in> set (store.exercises db).
           exercises.exerciseId e = workout_sets_row.exerciseId r \<and>
           exercises.name e = workout_sets_row.name r) \<and>
        (\<forall>e \<in> set (store.exercises db).
           exercises.exerciseId e = workout_sets_row.exerciseId r \<longrightarrow>
           exercises.name e = workout_sets_row.name r)"
    if "r \<in> set ?rows" for r
  proof -
    from from_partition [OF that] obtain p where p: "p \<in> set (partitions uid db)"
      and r: "r = best_row uid db (hd (partition_rows uid db p))"
      by blast
    from best_row_exercise [OF assms(1) p] show ?thesis
      unfolding r .
  qed
  have greatest: "\<exists>n k.
        workout_sets_row.reps r = Some n \<and> workout_sets_row.weight r = Some k \<and>
        (\<exists>s \<in> set (store.sets db).
           sets.workoutId s = workout_sets_row.workoutId r \<and>
           sets.exerciseId s = workout_sets_row.exerciseId r \<and>
           sets.reps s = Some n \<and> sets.weight s = Some k) \<and>
        (\<forall>s \<in> set (store.sets db).
           sets.workoutId s = workout_sets_row.workoutId r \<and>
           sets.exerciseId s = workout_sets_row.exerciseId r \<longrightarrow>
           (\<forall>n' k'. sets.reps s = Some n' \<and> sets.weight s = Some k' \<longrightarrow>
              of_int n' * k' \<le> of_int n * k))"
    if "r \<in> set ?rows" for r
  proof -
    from from_partition [OF that] obtain p where p: "p \<in> set (partitions uid db)"
      and r: "r = best_row uid db (hd (partition_rows uid db p))"
      by blast
    have "?pair r = p"
      unfolding r pair_best_row by (rule partition_rows_hd(3) [OF p])
    then have pr: "workout_sets_row.workoutId r = fst p" "workout_sets_row.exerciseId r = snd p"
      by auto
    from best_row_greatest [OF p] obtain n k where
      nk: "workout_sets_row.reps r = Some n" "workout_sets_row.weight r = Some k"
      and ex: "\<exists>s \<in> set (store.sets db). (sets.workoutId s, sets.exerciseId s) = p \<and>
              sets.reps s = Some n \<and> sets.weight s = Some k"
      and all: "\<forall>s \<in> set (store.sets db). (sets.workoutId s, sets.exerciseId s) = p \<longrightarrow>
              (\<forall>n' k'. sets.reps s = Some n' \<and> sets.weight s = Some k' \<longrightarrow>
                 of_int n' * k' \<le> of_int n * k)"
      unfolding r [symmetric] by blast
    from ex have ex': "\<exists>s \<in> set (store.sets db).
           sets.workoutId s = workout_sets_row.workoutId r \<and>
           sets.exerciseId s = workout_sets_row.exerciseId r \<and>
           sets.reps s = Some n \<and> sets.weight s = Some k"
      unfolding pr by (auto simp: prod_eq_iff)
    from all have all': "\<forall>s \<in> set (store.sets db).
           sets.workoutId s = workout_sets_row.workoutId r \<and>
           sets.exerciseId s = workout_sets_row.exerciseId r \<longrightarrow>
           (\<forall>n' k'. sets.reps s = Some n' \<and> sets.weight s = Some k' \<longrightarrow>
              of_int n' * k' \<le> of_int n * k)"
      unfolding pr by (simp add: prod_eq_iff)
    from nk ex' all' show ?thesis by blast
  qed
  from named have named': "\<forall>r \<in> set ?rows.
        (\<exists>e \<in> set (store.exercises db).
           exercises.exerciseId e = workout_sets_row.exerciseId r \<and>
           exercises.name e = workout_sets_row.name r) \<and>
        (\<forall>e \<in> set (store.exercises db).
           exercises.exerciseId e = workout_sets_row.exerciseId r \<longrightarrow>
           exercises.name e = workout_sets_row.name r)"
    by (rule ballI)
  from greatest have greatest': "\<forall>r \<in> set ?rows. \<exists>n k.
        workout_sets_row.reps r = Some n \<and> workout_sets_row.weight r = Some k \<and>
        (\<exists>s \<in> set (store.sets db).
           sets.workoutId s = workout_sets_row.workoutId r \<and>
           sets.exerciseId s = workout_sets_row.exerciseId r \<and>
           sets.reps s = Some n \<and> sets.weight s = Some k) \<and>
        (\<forall>s \<in> set (store.sets db).
           sets.workoutId s = workout_sets_row.workoutId r \<and>
           sets.exerciseId s = workout_sets_row.exerciseId r \<longrightarrow>
           (\<forall>n' k'. sets.reps s = Some n' \<and> sets.weight s = Some k' \<longrightarrow>
              of_int n' * k' \<le> of_int n * k))"
    by (rule ballI)
  from run filled ordered named' once every greatest' show ?thesis
    by (intro exI [of _ ?rows] conjI)
qed

text \<open>
  The statistics of user 1 on the example store, step by step: of the bench sets 5 x 100 and
  3 x 150 the first has the greater volume, 500 against 450.
\<close>

lemmas gym_rows = set_row_def workout_row_def bench_def squat_def

lemma from_join_gym:
  "from_join 1 gym =
    [(set_row 1 1 1 (Some 5) (Some 100), workout_row 1 1 (Some 50) (Some ''Push''), bench),
     (set_row 1 1 2 (Some 3) (Some 150), workout_row 1 1 (Some 50) (Some ''Push''), bench),
     (set_row 1 2 2 (Some 10) (Some 40), workout_row 1 1 (Some 50) (Some ''Push''), squat)]"
  by (simp add: from_join_def gym_def gym_rows)

lemma grouped_gym: "grouped 1 gym = from_join 1 gym"
  by (simp add: grouped_def from_join_gym gym_rows)

lemma partitions_gym: "partitions 1 gym = [(1, 1), (1, 2)]"
  by (simp add: partitions_def grouped_gym from_join_gym partition_of_def gym_rows)

lemma partition_rows_gym:
  "partition_rows 1 gym (1, 1) =
     [(set_row 1 1 1 (Some 5) (Some 100), workout_row 1 1 (Some 50) (Some ''Push''), bench),
      (set_row 1 1 2 (Some 3) (Some 150), workout_row 1 1 (Some 50) (Some ''Push''), bench)]"
  "partition_rows 1 gym (1, 2) =
     [(set_row 1 2 2 (Some 10) (Some 40), workout_row 1 1 (Some 50) (Some ''Push''), squat)]"
  by (simp_all add: partition_rows_def grouped_gym from_join_gym partition_of_def volume_desc_def
      volume_def gym_rows)

lemma bestSetCTE_gym:
  "bestSetCTE 1 gym =
     [(1, set_row 1 1 1 (Some 5) (Some 100), workout_row 1 1 (Some 50) (Some ''Push''), bench),
      (2, set_row 1 1 2 (Some 3) (Some 150), workout_row 1 1 (Some 50) (Some ''Push''), bench),
      (1, set_row 1 2 2 (Some 10) (Some 40), workout_row 1 1 (Some 50) (Some ''Push''), squat)]"
  by (simp add: bestSetCTE_def partitions_gym partition_rows_gym enumerate_eq_zip upt_rec)

lemma totalSetsCTE_gym: "totalSetsCTE 1 gym = [(2, 1, 1, Some 50), (1, 2, 1, Some 50)]"
  by (simp add: totalSetsCTE_def from_join_gym group_of_def gym_rows)

lemma best_join_total_gym:
  "best_join_total 1 gym =
     [selected (set_row 1 1 1 (Some 5) (Some 100)) (workout_row 1 1 (Some 50) (Some ''Push'')) bench 2 (Some 50),
      selected (set_row 1 2 2 (Some 10) (Some 40)) (workout_row 1 1 (Some 50) (Some ''Push'')) squat 1 (Some 50)]"
  by (simp add: best_join_total_def bestSetCTE_gym totalSetsCTE_gym gym_rows)

lemma workout_sets_gym:
  "workout_sets (\<le>) 1 gym =
     Inr (200,
       [selected (set_row 1 2 2 (Some 10) (Some 40)) (workout_row 1 1 (Some 50) (Some ''Push'')) squat 1 (Some 50),
        selected (set_row 1 1 1 (Some 5) (Some 100)) (workout_row 1 1 (Some 50) (Some ''Push'')) bench 2 (Some 50)])"
  by (simp add: workout_sets_def best_join_total_gym selected_def gym_rows)

theorem workout_sets_best_set_witness:
  "\<exists>rows. workout_sets (\<le>) 1 gym = Inr (200, rows) \<and>
     map (\<lambda>r. (workout_sets_row.name r, workout_sets_row.workoutId r, workout_sets_row.exerciseId r,
                workout_sets_row.reps r, workout_sets_row.weight r, workout_sets_row.totalSets r)) rows
       = [(''Air Squat'', 1, 2, Some 10, Some 40, 1), (''Bench Press'', 1, 1, Some 5, Some 100, 2)] \<and>
     sorted_wrt (\<lambda>a b. workout_sets_row.name a \<le> workout_sets_row.name b) rows \<and>
     distinct (map (\<lambda>r. (workout_sets_row.workoutId r, workout_sets_row.exerciseId r)) rows)"
proof -
  have h1: "constraints gym" by code_simp
  have h2: "(1::int) \<noteq> 0" by simp
  have h3: "\<forall>a b :: string. a \<le> b \<or> b \<le> a" by (simp add: linear)
  have h4: "\<forall>a b c :: string. a \<le> b \<longrightarrow> b \<le> c \<longrightarrow> a \<le> c" by auto
  obtain rows where
    r: "workout_sets (\<le>) 1 gym = Inr (200, rows)"
      "sorted_wrt (\<lambda>a b. workout_sets_row.name a \<le> workout_sets_row.name b) rows"
      "distinct (map (\<lambda>r. (workout_sets_row.workoutId r, workout_sets_row.exerciseId r)) rows)"
    using workout_sets_best_set [OF h1 h2 h3 h4] by (elim exE conjE) (rule that)
  from r(1) have rows: "rows =
       [selected (set_row 1 2 2 (Some 10) (Some 40)) (workout_row 1 1 (Some 50) (Some ''Push'')) squat 1 (Some 50),
        selected (set_row 1 1 1 (Some 5) (Some 100)) (workout_row 1 1 (Some 50) (Some ''Push'')) bench 2 (Some 50)]"
    unfolding workout_sets_gym by simp
  have "map (\<lambda>r. (workout_sets_row.name r, workout_sets_row.workoutId r, workout_sets_row.exerciseId r,
                workout_sets_row.reps r, workout_sets_row.weight r, workout_sets_row.totalSets r)) rows
       = [(''Air Squat'', 1, 2, Some 10, Some 40, 1), (''Bench Press'', 1, 1, Some 5, Some 100, 2)]"
    unfolding rows by (simp add: selected_def gym_rows)
  with r show ?thesis by (intro exI [of _ rows] conjI)
qed

end
